theory Spec2Isabelle
  imports Main "HOL-Library.Sublist"
begin

section \<open>The release tool of mongo-tools (release/release.go)\<close>

text \<open>
  A shallow embedding of \<^verbatim>\<open>release.go\<close>: the publisher \<^verbatim>\<open>uploadRelease\<close>, the metadata
  substitution of \<^verbatim>\<open>buildRPM\<close> and \<^verbatim>\<open>buildDeb\<close>, and \<^verbatim>\<open>buildMSI\<close>.

  The packages \<^verbatim>\<open>aws\<close>, \<open>download\<close>, \<open>env\<close>, \<open>evergreen\<close>, \<open>platform\<close> and \<open>version\<close> that
  \<^verbatim>\<open>release.go\<close> imports, the operating system and the network are collaborators: what
  they answer is a field of the record \<open>collab\<close>, and every theorem holds for all values of
  these fields. What the program does to the outside (files written, lines printed, commands
  run, files uploaded) is kept in a \<open>world\<close> that every operation takes and returns.
  A collaborator answers the same question in the same way throughout a run.
  \<^verbatim>\<open>log.Fatal\<close> ends the process: it is the result \<open>Inl (Fatal msg)\<close>, and nothing runs
  after it (Go does not run deferred calls on \<^verbatim>\<open>os.Exit\<close>).
\<close>

subsection \<open>Data\<close>

datatype os = OSWindows | OSLinux | OSMac

text \<open>\<^verbatim>\<open>platform.Platform\<close>: the fields \<^verbatim>\<open>release.go\<close> reads.\<close>

record platform =
  Name :: string
  Arch :: string
  OS :: os

text \<open>\<^verbatim>\<open>version.Version\<close>. Its methods (\<^verbatim>\<open>String\<close>, \<^verbatim>\<open>IsStable\<close>, ...) are collaborators.\<close>

record version =
  Major :: int
  Minor :: int
  Patch :: int
  Pre :: string
  Commit :: string

text \<open>\<^verbatim>\<open>evergreen.Task\<close> and \<^verbatim>\<open>evergreen.Artifact\<close>. \<open>IsPatch\<close> is what the method
  \<^verbatim>\<open>task.IsPatch()\<close> answers for the task.\<close>

record task =
  TaskID :: string
  Variant :: string
  DisplayName :: string
  IsPatch :: bool

record artifact =
  URL :: string

text \<open>
  \<^verbatim>\<open>download.ToolsArchive\<close> and \<^verbatim>\<open>download.ToolsPackage\<close> have the same four fields.
  In \<^verbatim>\<open>download.ToolsDownload\<close> the archive is a struct value (zero value: four empty
  strings) and the package a pointer (zero value: nil).
\<close>

record tools_artifact =
  artURL :: string
  Md5 :: string
  Sha1 :: string
  Sha256 :: string

record tools_download =
  dlName :: string
  dlArch :: string
  Archive :: tools_artifact
  Package :: "tools_artifact option"

record tools_version =
  tvVersion :: string
  Downloads :: "tools_download list"

record json_feed =
  Versions :: "tools_version list"

datatype error = Fatal string | Panic string

text \<open>An error reported by \<^verbatim>\<open>exec.Cmd.Output\<close>: an \<^verbatim>\<open>*exec.ExitError\<close> with its captured
  standard error, or any other error.\<close>

datatype cmd_error = ExitError string string | OtherError string

text \<open>What the program does to the outside, in the order it does it.\<close>

datatype event =
    Print string
  | Log string
  | HttpGet string
  | Upload string string string "string option"
  | Run string "string list"
  | Link string string
  | RemoveAll string
  | MkdirAll string
  | Chdir string

record world =
  files :: "string \<Rightarrow> string option"
  trace :: "event list"

text \<open>The system calls that can fail; \<open>ioErr\<close> below says which call fails on which
  arguments (\<open>None\<close>: it succeeds).\<close>

datatype io_op =
  OsCreate | OsOpen | IoCopy | OsClose | ReadFile | WriteString | JsonEncode
  | OsLink | OsRemoveAll | OsMkdirAll | OsChdir

text \<open>
  The collaborators: \<^verbatim>\<open>env.EvgIsPatch\<close>; \<^verbatim>\<open>evergreen.GetTasksForRevision\<close> and
  \<^verbatim>\<open>GetArtifactsForTask\<close>; \<^verbatim>\<open>platform.GetByVariant\<close>, \<^verbatim>\<open>Count\<close>, \<^verbatim>\<open>GetFromEnv\<close> and
  the methods \<^verbatim>\<open>ArtifactExtensions\<close> and \<^verbatim>\<open>DebianArch\<close>; \<^verbatim>\<open>aws.GetClient\<close> and
  \<^verbatim>\<open>UploadFile\<close>; \<^verbatim>\<open>version.GetCurrent\<close> and the methods \<^verbatim>\<open>String\<close>,
  \<^verbatim>\<open>StringWithoutPre\<close>, \<^verbatim>\<open>RPMRelease\<close> and \<^verbatim>\<open>IsStable\<close>; then \<^verbatim>\<open>http.Get\<close>, the
  failures of system calls, the hexadecimal digests, \<^verbatim>\<open>json.Encoder.Encode\<close>,
  \<^verbatim>\<open>os.Getwd\<close>, \<^verbatim>\<open>exec.Cmd.Output\<close>, \<^verbatim>\<open>strings.TrimSpace\<close>, the verb \<^verbatim>\<open>%q\<close>,
  \<^verbatim>\<open>fmt.Sprintf\<close> of a format without arguments, \<^verbatim>\<open>filepath.Join\<close> and
  \<^verbatim>\<open>os.PathSeparator\<close>. An error is the string of its message; \<open>Inl\<close> and \<open>Some\<close> carry
  the error of a call that fails.
\<close>

record collab =
  EvgIsPatch :: bool
  GetTasksForRevision :: "string \<Rightarrow> string + task list"
  GetArtifactsForTask :: "string \<Rightarrow> string + artifact list"
  GetByVariant :: "string \<Rightarrow> platform option"
  Count :: nat
  ArtifactExtensions :: "platform \<Rightarrow> string list"
  DebianArch :: "platform \<Rightarrow> string"
  GetFromEnv :: "string + platform"
  GetClient :: "string option"
  UploadFile :: "string \<Rightarrow> string \<Rightarrow> string \<Rightarrow> string option"
  GetCurrent :: "string + version"
  vString :: "version \<Rightarrow> string"
  vStringWithoutPre :: "version \<Rightarrow> string"
  vRPMRelease :: "version \<Rightarrow> string"
  vIsStable :: "version \<Rightarrow> bool"
  httpGet :: "string \<Rightarrow> string + string"
  ioErr :: "io_op \<Rightarrow> string list \<Rightarrow> string option"
  md5Hex :: "string \<Rightarrow> string"
  sha1Hex :: "string \<Rightarrow> string"
  sha256Hex :: "string \<Rightarrow> string"
  jsonEncode :: "json_feed \<Rightarrow> string"
  osGetwd :: "string + string"
  cmdOutput :: "string \<Rightarrow> string list \<Rightarrow> string \<times> cmd_error option"
  stringsTrimSpace :: "string \<Rightarrow> string"
  fmtQuote :: "string \<Rightarrow> string"
  fmtSprintf :: "string \<Rightarrow> string"
  filepathJoin :: "string list \<Rightarrow> string"
  pathSeparator :: string

subsection \<open>Operations that change the world and may end the process\<close>

type_synonym 'a io = "world \<Rightarrow> (error + 'a) \<times> world"

definition io_return :: "'a \<Rightarrow> 'a io" where
  "io_return x = (\<lambda>w. (Inr x, w))"

definition io_bind :: "'a io \<Rightarrow> ('a \<Rightarrow> 'b io) \<Rightarrow> 'b io" where
  "io_bind m f = (\<lambda>w. case m w of (Inl e, w') \<Rightarrow> (Inl e, w') | (Inr x, w') \<Rightarrow> f x w')"

definition io_then :: "unit io \<Rightarrow> 'b io \<Rightarrow> 'b io" where
  "io_then m k = io_bind m (\<lambda>_. k)"

definition emit :: "event \<Rightarrow> unit io" where
  "emit ev = (\<lambda>w. (Inr (), w\<lparr>trace := trace w @ [ev]\<rparr>))"

definition logFatal :: "string \<Rightarrow> 'a io" where
  "logFatal msg = (\<lambda>w. (Inl (Fatal msg), w))"

definition panic :: "string \<Rightarrow> 'a io" where
  "panic msg = (\<lambda>w. (Inl (Panic msg), w))"

text \<open>
  \<^verbatim>\<open>check(err, format...)\<close>. Every call in the modelled functions passes one format string
  and no further argument; \<open>task\<close> is that string after \<^verbatim>\<open>fmt.Sprintf\<close>, which leaves a
  string without verbs as it is.
\<close>

definition checkMsg :: "string \<Rightarrow> string \<Rightarrow> string" where
  "checkMsg task e = [CHR 0x27] @ task @ [CHR 0x27] @ '' failed: '' @ e"

definition check :: "string option \<Rightarrow> string \<Rightarrow> unit io" where
  "check err task =
     (case err of
        None \<Rightarrow> io_return ()
      | Some e \<Rightarrow> logFatal (checkMsg task e))"

text \<open>A call returning \<^verbatim>\<open>(value, err)\<close>, followed by \<^verbatim>\<open>check(err, task)\<close>.\<close>

definition checked :: "string + 'a \<Rightarrow> string \<Rightarrow> 'a io" where
  "checked r task =
     (case r of
        Inl e \<Rightarrow> logFatal (checkMsg task e)
      | Inr x \<Rightarrow> io_return x)"

text \<open>A \<^verbatim>\<open>for ... range\<close> loop whose body updates an accumulator and may end the process.\<close>

fun forRange :: "'a list \<Rightarrow> ('a \<Rightarrow> 'b \<Rightarrow> 'b io) \<Rightarrow> 'b \<Rightarrow> 'b io" where
  "forRange [] body acc = io_return acc"
| "forRange (x # xs) body acc = io_bind (body x acc) (forRange xs body)"

subsection \<open>Decimal numbers (\<^verbatim>\<open>%d\<close>)\<close>

definition digitChar :: "nat \<Rightarrow> char" where
  "digitChar d = ''0123456789'' ! d"

function digits :: "nat \<Rightarrow> string" where
  "digits n = (if n < 10 then [digitChar n] else digits (n div 10) @ [digitChar (n mod 10)])"
  by pat_completeness auto
termination
  by (relation "measure id") auto

declare digits.simps [simp del]

definition showInt :: "int \<Rightarrow> string" where
  "showInt i = (if i < 0 then CHR ''-'' # digits (nat (- i)) else digits (nat i))"

subsection \<open>Files\<close>

text \<open>
  A file is the string of its bytes, under the path the program names it by; each modelled
  function names all of its files from one working directory. Reading a file (\<open>getFile\<close>)
  fails when the system call does or when no file has that path.
\<close>

definition getFile :: "collab \<Rightarrow> io_op \<Rightarrow> string list \<Rightarrow> string \<Rightarrow> world \<Rightarrow> string + string" where
  "getFile c op args filename w =
     (case ioErr c op args of
        Some e \<Rightarrow> Inl e
      | None \<Rightarrow> (case files w filename of
                   None \<Rightarrow> Inl (''open '' @ filename @ '': no such file or directory'')
                 | Some content \<Rightarrow> Inr content))"

definition putFile :: "string \<Rightarrow> string \<Rightarrow> unit io" where
  "putFile filename content = (\<lambda>w. (Inr (), w\<lparr>files := (files w)(filename \<mapsto> content)\<rparr>))"

text \<open>
  \<^verbatim>\<open>copyFile\<close>: \<^verbatim>\<open>os.Create\<close> truncates the destination before \<^verbatim>\<open>io.Copy\<close> reads the
  source, so copying a file onto itself empties it. The error of the final \<^verbatim>\<open>out.Close()\<close>
  is returned to the caller.
\<close>

definition copyFile :: "collab \<Rightarrow> string \<Rightarrow> string \<Rightarrow> string option io" where
  "copyFile c src dst =
     io_bind (\<lambda>w. checked (getFile c OsOpen [src, dst] src w) ''open src'' w) (\<lambda>content.
     io_then (check (ioErr c OsCreate [src, dst]) ''create dst'')
    (io_then (putFile dst [])
    (io_then (check (ioErr c IoCopy [src, dst]) ''copy src -> dst'')
    (io_then (putFile dst (if src = dst then [] else content))
    (io_return (ioErr c OsClose [src, dst]))))))"

definition downloadFile :: "collab \<Rightarrow> string \<Rightarrow> string \<Rightarrow> unit io" where
  "downloadFile c url dst =
     io_then (check (ioErr c OsCreate [dst]) ''create release file'')
    (io_then (putFile dst [])
    (io_then (emit (HttpGet url))
    (io_bind (checked (httpGet c url) ''download release file'') (\<lambda>body.
     io_then (check (ioErr c IoCopy [url, dst]) ''write release file from http body'')
    (putFile dst body)))))"

definition computeMD5 :: "collab \<Rightarrow> string \<Rightarrow> string io" where
  "computeMD5 c filename =
     io_bind (\<lambda>w. checked (getFile c ReadFile [filename] filename w)
                     ''reading file during md5 summing'' w)
       (\<lambda>content. io_return (md5Hex c content))"

definition computeSHA1 :: "collab \<Rightarrow> string \<Rightarrow> string io" where
  "computeSHA1 c filename =
     io_bind (\<lambda>w. checked (getFile c ReadFile [filename] filename w)
                     ''reading file during sha1 summing'' w)
       (\<lambda>content. io_return (sha1Hex c content))"

definition computeSHA256 :: "collab \<Rightarrow> string \<Rightarrow> string io" where
  "computeSHA256 c filename =
     io_bind (\<lambda>w. checked (getFile c ReadFile [filename] filename w)
                     ''reading file during sha256 summing'' w)
       (\<lambda>content. io_return (sha256Hex c content))"

subsection \<open>\<^verbatim>\<open>path.Ext\<close>\<close>

text \<open>
  The suffix of the path from the last dot of its last slash-separated element, or the empty
  string when that element has no dot. \<open>extScan\<close> walks the path from its end, as the loop
  of \<^verbatim>\<open>path.Ext\<close> does.
\<close>

fun extScan :: "string \<Rightarrow> string \<Rightarrow> string" where
  "extScan [] acc = []"
| "extScan (ch # rs) acc =
     (if ch = CHR ''/'' then []
      else if ch = CHR ''.'' then ch # acc
      else extScan rs (ch # acc))"

definition pathExt :: "string \<Rightarrow> string" where
  "pathExt p = extScan (rev p) []"

subsection \<open>\<^verbatim>\<open>uploadRelease\<close>\<close>

definition unstableFile :: "platform \<Rightarrow> string \<Rightarrow> string" where
  "unstableFile pf ext =
     ''mongodb-database-tools-'' @ Name pf @ ''-'' @ Arch pf @ ''-unstable'' @ ext"

definition stableFile :: "collab \<Rightarrow> version \<Rightarrow> platform \<Rightarrow> string \<Rightarrow> string" where
  "stableFile c v pf ext =
     ''mongodb-database-tools-'' @ Name pf @ ''-'' @ Arch pf @ ''-'' @ vString c v @ ext"

definition latestStableFile :: "platform \<Rightarrow> string \<Rightarrow> string" where
  "latestStableFile pf ext =
     ''mongodb-database-tools-'' @ Name pf @ ''-'' @ Arch pf @ ''-latest-stable'' @ ext"

definition feedFilename :: string where
  "feedFilename = ''release.json''"

text \<open>
  Modelled from the spec: the \<^verbatim>\<open>aws\<close> package is not among the sources; its
  \<^verbatim>\<open>UploadFile(bucket, objPath, file)\<close> reports success or failure to its caller and has
  no other result. The call is recorded with what it answers (\<open>None\<close>: the upload
  succeeded), and the answer is handed back to the caller.
\<close>

definition awsUploadFile :: "collab \<Rightarrow> string \<Rightarrow> string \<Rightarrow> string \<Rightarrow> string option io" where
  "awsUploadFile c bucket objPath filename = (\<lambda>w.
     (Inr (UploadFile c bucket objPath filename),
      w\<lparr>trace := trace w @ [Upload bucket objPath filename (UploadFile c bucket objPath filename)]\<rparr>))"

definition uploadingTo :: "string \<Rightarrow> event" where
  "uploadingTo file =
     Print (''    uploading to https://s3.amazonaws.com/downloads.mongodb.org/tools/db/''
            @ file @ [CHR 0x0A])"

text \<open>
  The body of the loop over the artifacts of one sign task, in three parts: the names, the
  first \<^verbatim>\<open>if v.IsStable()\<close> block (copies, checksums and the entry of the feed), and the
  uploads. \<open>dl\<close> is the download entry being filled in.
\<close>

definition artifactURL :: "collab \<Rightarrow> version \<Rightarrow> platform \<Rightarrow> string \<Rightarrow> string" where
  "artifactURL c v pf ext = ''https://fastdl.mongodb.org/tools/db/'' @ stableFile c v pf ext"

definition stabilize ::
  "collab \<Rightarrow> version \<Rightarrow> platform \<Rightarrow> string \<Rightarrow> tools_download \<Rightarrow> tools_download io" where
  "stabilize c v pf ext dl =
     (if vIsStable c v then
        io_bind (copyFile c (unstableFile pf ext) (stableFile c v pf ext)) (\<lambda>_.
        io_bind (copyFile c (unstableFile pf ext) (latestStableFile pf ext)) (\<lambda>_.
        io_bind (computeMD5 c (latestStableFile pf ext)) (\<lambda>md5sum.
        io_bind (computeSHA1 c (latestStableFile pf ext)) (\<lambda>sha1sum.
        io_bind (computeSHA256 c (latestStableFile pf ext)) (\<lambda>sha256sum.
        io_return
          (if ext = ''.tgz'' \<or> ext = ''.zip'' then
             dl\<lparr>Archive := \<lparr>artURL = artifactURL c v pf ext, Md5 = md5sum,
                             Sha1 = sha1sum, Sha256 = sha256sum\<rparr>\<rparr>
           else
             dl\<lparr>Package := Some \<lparr>artURL = artifactURL c v pf ext, Md5 = md5sum,
                                  Sha1 = sha1sum, Sha256 = sha256sum\<rparr>\<rparr>))))))
      else io_return dl)"

text \<open>What \<^verbatim>\<open>UploadFile\<close> returns is dropped at each of the three calls.\<close>

definition uploadFiles :: "collab \<Rightarrow> version \<Rightarrow> platform \<Rightarrow> string \<Rightarrow> unit io" where
  "uploadFiles c v pf ext =
     io_then (emit (uploadingTo (unstableFile pf ext)))
    (io_bind (awsUploadFile c ''downloads.mongodb.org'' ''/tools/db'' (unstableFile pf ext)) (\<lambda>_.
     if vIsStable c v then
       io_then (emit (uploadingTo (stableFile c v pf ext)))
      (io_bind (awsUploadFile c ''downloads.mongodb.org'' ''/tools/db'' (stableFile c v pf ext)) (\<lambda>_.
       io_then (emit (uploadingTo (latestStableFile pf ext)))
      (io_bind (awsUploadFile c ''downloads.mongodb.org'' ''/tools/db'' (latestStableFile pf ext))
         (\<lambda>_. io_return ()))))
     else io_return ()))"

definition uploadArtifact ::
  "collab \<Rightarrow> version \<Rightarrow> platform \<Rightarrow> artifact \<Rightarrow> tools_download \<Rightarrow> tools_download io" where
  "uploadArtifact c v pf a dl =
     (let ext = pathExt (URL a) in
      io_then (emit (Print (''  downloading '' @ URL a @ [CHR 0x0A])))
     (io_then (downloadFile c (URL a) (unstableFile pf ext))
     (io_bind (stabilize c v pf ext dl) (\<lambda>dl'.
      io_then (uploadFiles c v pf ext)
     (io_return dl')))))"

text \<open>The body of the first loop: keep the sign tasks that are not patch tasks, and end the
  process on one whose variant the platform matrix does not know.\<close>

definition unknownVariantMsg :: "string \<Rightarrow> string" where
  "unknownVariantMsg variant =
     ''found sign task with unknown variant '' @ [CHR 0x27] @ variant @ [CHR 0x27, CHR 0x0A]"

definition filterSignTask :: "collab \<Rightarrow> task \<Rightarrow> task list \<Rightarrow> task list io" where
  "filterSignTask c t signTasks =
     (if IsPatch t \<or> DisplayName t \<noteq> ''sign'' then io_return signTasks
      else (case GetByVariant c (Variant t) of
              None \<Rightarrow> logFatal (unknownVariantMsg (Variant t))
            | Some _ \<Rightarrow> io_return (signTasks @ [t])))"

definition emptyDownload :: "platform \<Rightarrow> tools_download" where
  "emptyDownload pf =
     \<lparr>dlName = Name pf, dlArch = Arch pf,
      Archive = \<lparr>artURL = [], Md5 = [], Sha1 = [], Sha256 = []\<rparr>, Package = None\<rparr>"

text \<open>The body of the second loop, over the sign tasks; \<open>dls\<close> collects the download
  entries for the feed.\<close>

definition uploadTask ::
  "collab \<Rightarrow> version \<Rightarrow> task \<Rightarrow> tools_download list \<Rightarrow> tools_download list io" where
  "uploadTask c v t dls =
     io_then (emit (Print ([CHR 0x0A] @ ''getting artifacts for '' @ Variant t @ [CHR 0x0A])))
    (io_bind (case GetByVariant c (Variant t) of
                None \<Rightarrow> panic ''unreachable''
              | Some pf \<Rightarrow> io_return pf) (\<lambda>pf.
     io_bind (checked (GetArtifactsForTask c (TaskID t)) ''getting artifacts list'') (\<lambda>artifacts.
     io_then
       (if length artifacts \<noteq> length (ArtifactExtensions c pf) then
          logFatal (''expected '' @ showInt (int (length (ArtifactExtensions c pf)))
                    @ '' artifacts but found '' @ showInt (int (length artifacts))
                    @ '' for '' @ Variant t)
        else io_return ())
       (io_bind (forRange artifacts (uploadArtifact c v pf) (emptyDownload pf)) (\<lambda>dl.
        io_return (dls @ [dl]))))))"

definition uploadFeed :: "collab \<Rightarrow> version \<Rightarrow> tools_download list \<Rightarrow> unit io" where
  "uploadFeed c v dls =
     (let feed = \<lparr>Versions = [\<lparr>tvVersion = vStringWithoutPre c v, Downloads = dls\<rparr>]\<rparr> in
      io_then (check (ioErr c OsCreate [feedFilename]) ''create release.json'')
     (io_then (putFile feedFilename [])
     (io_then (check (ioErr c JsonEncode [feedFilename]) ''encode json feed'')
     (io_then (putFile feedFilename (jsonEncode c feed))
     (io_then (emit (Print (''uploading download feed to https://s3.amazonaws.com/downloads.mongodb.org/tools/db/''
                            @ feedFilename @ [CHR 0x0A])))
     (io_bind (awsUploadFile c ''downloads.mongodb.org'' ''/tools/db'' feedFilename)
        (\<lambda>_. io_return ())))))))"

definition signCountMsg :: "nat \<Rightarrow> nat \<Rightarrow> string" where
  "signCountMsg found expected =
     ''found '' @ showInt (int found) @ '' sign tasks, but expected ''
     @ showInt (int expected) @ '' release platforms''"

definition uploadRelease :: "collab \<Rightarrow> version \<Rightarrow> unit io" where
  "uploadRelease c v =
     io_then
       (if EvgIsPatch c then
          emit (Print (''current build is a patch; not uploading a release'' @ [CHR 0x0A]))
        else io_return ())
    (io_bind (checked (GetTasksForRevision c (Commit v)) ''get evergreen tasks'') (\<lambda>tasks.
     io_bind (forRange tasks (filterSignTask c) []) (\<lambda>signTasks.
     io_then
       (if length signTasks \<noteq> Count c then
          logFatal (signCountMsg (length signTasks) (Count c))
        else io_return ())
    (io_then (check (GetClient c) ''get aws client'')
    (io_bind (forRange signTasks (uploadTask c v) []) (\<lambda>dls.
     if vIsStable c v then uploadFeed c v dls else io_return ()))))))"

text \<open>The uploads of a trace, in order: the file names handed to \<^verbatim>\<open>UploadFile\<close>.\<close>

fun uploadsOf :: "event list \<Rightarrow> string list" where
  "uploadsOf [] = []"
| "uploadsOf (Upload bucket objPath file r # evs) = file # uploadsOf evs"
| "uploadsOf (ev # evs) = uploadsOf evs"

subsection \<open>\<^verbatim>\<open>buildMSI\<close>\<close>

text \<open>
  \<^verbatim>\<open>run(name, args...)\<close>: the trimmed standard output of the command and its error, an
  \<^verbatim>\<open>*exec.ExitError\<close> rewritten to carry the captured standard error.
\<close>

definition run :: "collab \<Rightarrow> string \<Rightarrow> string list \<Rightarrow> (string \<times> string option) io" where
  "run c name args = (\<lambda>w.
     (Inr (stringsTrimSpace c (fst (cmdOutput c name args)),
           (case snd (cmdOutput c name args) of
              None \<Rightarrow> None
            | Some (ExitError msg stderr) \<Rightarrow>
                Some (''ExitError: '' @ msg @ ''. Stderr: '' @ fmtQuote c stderr)
            | Some (OtherError msg) \<Rightarrow> Some msg)),
      w\<lparr>trace := trace w @ [Run name args]\<rparr>))"

text \<open>\<^verbatim>\<open>os.Link(src, dst)\<close>: the call is recorded and its error handed back.\<close>

definition osLink :: "collab \<Rightarrow> string \<Rightarrow> string \<Rightarrow> string option io" where
  "osLink c src dst = (\<lambda>w.
     (Inr (ioErr c OsLink [src, dst]), w\<lparr>trace := trace w @ [Link src dst]\<rparr>))"

text \<open>\<^verbatim>\<open>useWorkingDir(dir)\<close> returns a closure that changes to \<open>cur\<close>, the directory read
  after the \<^verbatim>\<open>os.Chdir(dir)\<close>; the model returns \<open>cur\<close>.\<close>

definition useWorkingDir :: "collab \<Rightarrow> string \<Rightarrow> string io" where
  "useWorkingDir c dir =
     io_then (emit (RemoveAll dir))
    (io_then (check (ioErr c OsRemoveAll [dir]) (''removeAll '' @ dir))
    (io_then (emit (MkdirAll dir))
    (io_then (check (ioErr c OsMkdirAll [dir]) (''mkdirAll '' @ dir))
    (io_then (emit (Chdir dir))
    (io_then (check (ioErr c OsChdir [dir]) (''cd to '' @ dir))
    (checked (osGetwd c) ''get current directory''))))))"

definition msiUpgradeCode :: string where
  "msiUpgradeCode = ''f8a84cb5-a2a7-4392-bfb5-8f829b659960''"

definition binaries :: "string list" where
  "binaries = [''bsondump'', ''mongodump'', ''mongoexport'', ''mongofiles'', ''mongoimport'',
               ''mongorestore'', ''mongostat'', ''mongotop'']"

definition msiStaticFiles :: "string list" where
  "msiStaticFiles = [''README.md'', ''THIRD-PARTY-NOTICES'']"

definition saslDLLs :: "string list" where
  "saslDLLs = [''libsasl.dll'']"

definition msiFiles :: "string list" where
  "msiFiles = [''Banner_Tools.bmp'', ''BinaryFragment.wxs'', ''Dialog.bmp'', ''Dialog_Tools.bmp'',
               ''FeatureFragment.wxs'', ''Installer_Icon_16x16.ico'', ''Installer_Icon_32x32.ico'',
               ''LICENSE.rtf'', ''LicensingFragment.wxs'', ''Product.wxs'', ''UIFragment.wxs'']"

definition msiBuildDir :: string where
  "msiBuildDir = ''msi_build''"

text \<open>\<^verbatim>\<open>buildMSI\<close> from its log line to the end of the four ranges that fill the build
  directory; the result is the directory of the deferred \<^verbatim>\<open>cdBack\<close>.\<close>

definition msiStage :: "collab \<Rightarrow> string io" where
  "msiStage c =
     (let binariesPath = filepathJoin c [''..'', ''bin''];
          msiStaticFilesPath = ''..'';
          saslDLLsPath = pathSeparator c @ filepathJoin c [''sasl'', ''bin''];
          msiFilesPath = filepathJoin c [''..'', ''installer'', ''msi'']
      in
      io_then (emit (Log (''building msi installer'' @ [CHR 0x0A])))
     (io_bind (useWorkingDir c msiBuildDir) (\<lambda>cur.
      io_then (forRange saslDLLs (\<lambda>name _.
                 io_bind (copyFile c (filepathJoin c [saslDLLsPath, name]) name) (\<lambda>err.
                 check err (''copy sasl dlls into '' @ msiBuildDir))) ())
     (io_then (forRange msiStaticFiles (\<lambda>name _.
                 io_bind (osLink c (filepathJoin c [msiStaticFilesPath, name]) name) (\<lambda>err.
                 check err (''link msi static files into '' @ msiBuildDir))) ())
     (io_then (forRange msiFiles (\<lambda>name _.
                 io_bind (osLink c (filepathJoin c [msiFilesPath, name]) name) (\<lambda>err.
                 check err (''link msi creation files into '' @ msiBuildDir))) ())
     (io_then (forRange binaries (\<lambda>name _.
                 io_bind (osLink c (filepathJoin c [binariesPath, name]) (name @ ''.exe'')) (\<lambda>err.
                 check err (''link binary files into '' @ msiBuildDir))) ())
     (io_return cur)))))))"

definition lastVersionLabel :: string where
  "lastVersionLabel = ''100''"

definition upgradeCodeMsg :: string where
  "upgradeCodeMsg =
     checkMsg (''msiUpgradeCode should be up-to-date, last version = '' @ lastVersionLabel)
       ''msiUpgradeCode in release.go must be updated''"

text \<open>The two stages of the WiX toolchain, the link of the installer for the upload, and
  the deferred \<^verbatim>\<open>cdBack\<close>. \<open>cwd\<close> already ends in a backslash.\<close>

definition msiToolchain :: "collab \<Rightarrow> version \<Rightarrow> string \<Rightarrow> string \<Rightarrow> unit io" where
  "msiToolchain c v cwd cur =
     (let wixPath = pathSeparator c @ filepathJoin c [''wixtools'', ''bin''];
          wixUIExtPath = filepathJoin c [wixPath, ''WixUIExtension.dll''];
          projectName = ''MongoDB Tools'';
          sourceDir = cwd;
          resourceDir = cwd;
          binDir = cwd;
          objDir = filepathJoin c [cwd, ''objs''] @ pathSeparator c;
          arch = ''x64'';
          wixVersion = showInt (Major v) @ ''.'' @ showInt (Minor v) @ ''.'' @ showInt (Patch v);
          versionLabel = showInt (Major v);
          candle = filepathJoin c [wixPath, ''candle.exe''];
          output = ''release.msi'';
          light = filepathJoin c [wixPath, ''light.exe'']
      in
      io_bind (run c candle
                 [''-wx'', ''-dProductId=*'', ''-dPlatform=x64'',
                  ''-dUpgradeCode='' @ msiUpgradeCode,
                  ''-dVersion='' @ wixVersion,
                  ''-dVersionLabel='' @ versionLabel,
                  ''-dProjectName='' @ projectName,
                  ''-dSourceDir='' @ sourceDir,
                  ''-dResourceDir='' @ resourceDir,
                  ''-dSslDir='' @ binDir,
                  ''-dBinaryDir='' @ binDir,
                  ''-dTargetDir='' @ objDir,
                  ''-dTargetExt='' @ [CHR 0x22] @ ''.msi'' @ [CHR 0x22],
                  ''-dTargetFileName='' @ [CHR 0x22] @ ''release'' @ [CHR 0x22],
                  ''-dOutDir='' @ objDir,
                  ''-dConfiguration='' @ [CHR 0x22] @ ''Release'' @ [CHR 0x22],
                  ''-arch'', arch, ''-out'', objDir, ''-ext'', wixUIExtPath,
                  ''Product.wxs'', ''FeatureFragment.wxs'', ''BinaryFragment.wxs'',
                  ''LicensingFragment.wxs'', ''UIFragment.wxs'']) (\<lambda>r1.
      io_then (check (snd r1) (fmtSprintf c (''run candle.exe'' @ [CHR 0x0A] @ fst r1)))
     (io_bind (run c light
                 [''-wx'', ''-cultures:en-us'', ''-out'', output, ''-ext'', wixUIExtPath,
                  filepathJoin c [objDir, ''Product.wixobj''],
                  filepathJoin c [objDir, ''FeatureFragment.wixobj''],
                  filepathJoin c [objDir, ''BinaryFragment.wixobj''],
                  filepathJoin c [objDir, ''LicensingFragment.wixobj''],
                  filepathJoin c [objDir, ''UIFragment.wixobj'']]) (\<lambda>r2.
      io_then (check (snd r2) (fmtSprintf c (''run light.exe'' @ [CHR 0x0A] @ fst r2)))
     (io_bind (osLink c output (filepathJoin c [''..'', output])) (\<lambda>err.
      io_then (check err ''linking output for s3 upload'')
     (emit (Chdir cur))))))))"

definition buildMSI :: "collab \<Rightarrow> unit io" where
  "buildMSI c =
     io_bind (checked (GetFromEnv c) ''get platform'') (\<lambda>pf.
     if OS pf \<noteq> OSWindows then io_return ()
     else
       io_bind (msiStage c) (\<lambda>cur.
       io_bind (checked (osGetwd c) ''getwd'') (\<lambda>cwd.
       io_bind (checked (GetCurrent c) ''get version'') (\<lambda>v.
       io_then
         (if showInt (Major v) \<noteq> lastVersionLabel then
            check (Some ''msiUpgradeCode in release.go must be updated'')
              (''msiUpgradeCode should be up-to-date, last version = '' @ lastVersionLabel)
          else io_return ())
         (msiToolchain c v (cwd @ [CHR 0x5C]) cur)))))"

text \<open>The commands of a trace, in order.\<close>

fun runsOf :: "event list \<Rightarrow> (string \<times> string list) list" where
  "runsOf [] = []"
| "runsOf (Run name args # evs) = (name, args) # runsOf evs"
| "runsOf (ev # evs) = runsOf evs"

definition notRun :: "event \<Rightarrow> bool" where
  "notRun ev = (case ev of Run name args \<Rightarrow> False | _ \<Rightarrow> True)"

subsection \<open>The metadata files of \<^verbatim>\<open>buildRPM\<close> and \<^verbatim>\<open>buildDeb\<close>\<close>

text \<open>
  \<^verbatim>\<open>strings.Replace(s, old, new, n)\<close>: the first \<open>n\<close> instances of \<open>old\<close> in \<open>s\<close>, found
  from the left and not overlapping, are replaced by \<open>new\<close>; all of them when \<open>n < 0\<close>.
  \<^verbatim>\<open>release.go\<close> calls it with the three tokens below for \<open>old\<close>; what Go does for an empty
  \<open>old\<close> (an insertion at every rune) is not modelled, and \<open>s\<close> is returned.
\<close>

function stringsReplace :: "string \<Rightarrow> string \<Rightarrow> string \<Rightarrow> int \<Rightarrow> string" where
  "stringsReplace s old new n =
     (if n = 0 \<or> old = [] then s
      else if prefix old s then new @ stringsReplace (drop (length old) s) old new (n - 1)
      else (case s of
              [] \<Rightarrow> []
            | ch # rest \<Rightarrow> ch # stringsReplace rest old new n))"
  by pat_completeness auto
termination
  by (relation "measure (\<lambda>(s, old, new, n). length s)") (auto simp: prefix_def)

declare stringsReplace.simps [simp del]

definition specFile :: string where
  "specFile = ''mongodb-database-tools.spec''"

definition controlFile :: string where
  "controlFile = ''control''"

definition rpmTemplatePath :: "collab \<Rightarrow> string" where
  "rpmTemplatePath c = filepathJoin c [''..'', ''installer'', ''rpm'', specFile]"

definition debTemplatePath :: "collab \<Rightarrow> string" where
  "debTemplatePath c = filepathJoin c [''..'', ''installer'', ''deb'', ''control'']"

text \<open>The closure \<^verbatim>\<open>createSpecFile\<close> of \<^verbatim>\<open>buildRPM\<close>, for the platform \<open>pf\<close> and the
  version \<open>v\<close> that \<^verbatim>\<open>buildRPM\<close> has read.\<close>

definition createSpecFile :: "collab \<Rightarrow> platform \<Rightarrow> version \<Rightarrow> unit io" where
  "createSpecFile c pf v =
     (let rpmVersion = vStringWithoutPre c v;
          rpmRelease = vRPMRelease c v;
          template = rpmTemplatePath c
      in
      io_then (emit (Log (''create spec file'' @ [CHR 0x0A])))
     (io_then (check (ioErr c OsCreate [specFile]) ''create spec'')
     (io_then (putFile specFile [])
     (io_bind (\<lambda>w. checked (getFile c ReadFile [template] template w)
                      ''reading spec file content'' w) (\<lambda>content0.
      (let content1 = stringsReplace content0 ''@TOOLS_VERSION@'' rpmVersion (- 1);
           content2 = stringsReplace content1 ''@TOOLS_RELEASE@'' rpmRelease (- 1);
           content3 = stringsReplace content2 ''@ARCHITECTURE@'' (Arch pf) (- 1)
       in
       io_then (check (ioErr c WriteString [specFile]) ''write content to spec file'')
      (putFile specFile content3)))))))"

text \<open>The closure \<^verbatim>\<open>createControlFile\<close> of \<^verbatim>\<open>buildDeb\<close>, for the platform \<open>pf\<close> that
  \<^verbatim>\<open>buildDeb\<close> has read.\<close>

definition createControlFile :: "collab \<Rightarrow> platform \<Rightarrow> unit io" where
  "createControlFile c pf =
     (let template = debTemplatePath c in
      io_then (check (ioErr c OsCreate [controlFile]) ''create control'')
     (io_then (putFile controlFile [])
     (io_bind (checked (GetCurrent c) ''get version'') (\<lambda>v.
      io_bind (\<lambda>w. checked (getFile c ReadFile [template] template w)
                      ''reading control file content'' w) (\<lambda>content0.
      (let content1 = stringsReplace content0 ''@TOOLS_VERSION@'' (vString c v) (- 1);
           content2 = stringsReplace content1 ''@ARCHITECTURE@'' (DebianArch c pf) 1
       in
       io_then (check (ioErr c WriteString [controlFile]) ''write content to control file'')
      (putFile controlFile content2)))))))"

text \<open>
  A template as a list of segments: text without \<^verbatim>\<open>@\<close>, and fields. \<open>render\<close> is the text
  of the template file, \<open>fill\<close> the template with a value in the place of every field.
\<close>

datatype token = ToolsVersion | ToolsRelease | Architecture

datatype segment = Lit string | Field token

fun tokenBody :: "token \<Rightarrow> string" where
  "tokenBody ToolsVersion = ''TOOLS_VERSION''"
| "tokenBody ToolsRelease = ''TOOLS_RELEASE''"
| "tokenBody Architecture = ''ARCHITECTURE''"

definition tokenText :: "token \<Rightarrow> string" where
  "tokenText t = CHR ''@'' # tokenBody t @ ''@''"

fun render :: "segment list \<Rightarrow> string" where
  "render [] = []"
| "render (Lit s # segs) = s @ render segs"
| "render (Field t # segs) = tokenText t @ render segs"

fun fill :: "(token \<Rightarrow> string) \<Rightarrow> segment list \<Rightarrow> string" where
  "fill val [] = []"
| "fill val (Lit s # segs) = s @ fill val segs"
| "fill val (Field t # segs) = val t @ fill val segs"

text \<open>\<open>occursIn x s\<close>: the string \<open>x\<close> occurs in \<open>s\<close>.\<close>

fun occursIn :: "string \<Rightarrow> string \<Rightarrow> bool" where
  "occursIn x [] = (x = [])"
| "occursIn x (ch # s) = (prefix x (ch # s) \<or> occursIn x s)"

text \<open>\<open>noStart tok s rest\<close>: in the text \<open>s\<close> followed by \<open>rest\<close>, no occurrence of \<open>tok\<close>
  starts inside \<open>s\<close>.\<close>

fun noStart :: "string \<Rightarrow> string \<Rightarrow> string \<Rightarrow> bool" where
  "noStart tok [] rest = True"
| "noStart tok (ch # s) rest = (\<not> prefix tok (ch # s @ rest) \<and> noStart tok s rest)"

text \<open>
  The fields of a template are exact when they are all the occurrences of the tokens in its
  text: no token starts inside a text segment, or inside a field after its first character
  (so no occurrence overlaps a field or lies across two segments). A text segment may hold
  any character, \<^verbatim>\<open>@\<close> included.
\<close>

fun cleanFor :: "token \<Rightarrow> segment list \<Rightarrow> bool" where
  "cleanFor t [] = True"
| "cleanFor t (Lit s # segs) = (noStart (tokenText t) s (render segs) \<and> cleanFor t segs)"
| "cleanFor t (Field u # segs) =
     (noStart (tokenText t) (tl (tokenText u)) (render segs) \<and> cleanFor t segs)"

definition exactFields :: "segment list \<Rightarrow> bool" where
  "exactFields T \<longleftrightarrow> cleanFor ToolsVersion T \<and> cleanFor ToolsRelease T \<and> cleanFor Architecture T"

text \<open>A value is plain when it has no \<^verbatim>\<open>@\<close> and is not a part of the name of a token
  (the empty string is a part of every name).\<close>

definition plainValue :: "string \<Rightarrow> bool" where
  "plainValue v \<longleftrightarrow>
     CHR ''@'' \<notin> set v \<and> \<not> occursIn v ''TOOLS_VERSION'' \<and> \<not> occursIn v ''TOOLS_RELEASE''
     \<and> \<not> occursIn v ''ARCHITECTURE''"

fun fieldCount :: "token \<Rightarrow> segment list \<Rightarrow> nat" where
  "fieldCount t [] = 0"
| "fieldCount t (Lit s # segs) = fieldCount t segs"
| "fieldCount t (Field u # segs) = (if u = t then 1 else 0) + fieldCount t segs"

text \<open>The template with the first \<open>n\<close> fields \<open>t\<close> (all of them when \<open>n < 0\<close>) turned into
  the text \<open>v\<close>.\<close>

fun substField :: "token \<Rightarrow> string \<Rightarrow> int \<Rightarrow> segment list \<Rightarrow> segment list" where
  "substField t v n [] = []"
| "substField t v n (Lit s # segs) = Lit s # substField t v n segs"
| "substField t v n (Field u # segs) =
     (if n \<noteq> 0 \<and> u = t then Lit v # substField t v (n - 1) segs
      else Field u # substField t v n segs)"

text \<open>The values \<^verbatim>\<open>buildRPM\<close> and \<^verbatim>\<open>buildDeb\<close> put in the place of the fields;
  \<^verbatim>\<open>buildDeb\<close> leaves a release field as it is.\<close>

definition rpmValue :: "collab \<Rightarrow> platform \<Rightarrow> version \<Rightarrow> token \<Rightarrow> string" where
  "rpmValue c pf v t =
     (case t of ToolsVersion \<Rightarrow> vStringWithoutPre c v
      | ToolsRelease \<Rightarrow> vRPMRelease c v
      | Architecture \<Rightarrow> Arch pf)"

definition debValue :: "collab \<Rightarrow> platform \<Rightarrow> version \<Rightarrow> token \<Rightarrow> string" where
  "debValue c pf v t =
     (case t of ToolsVersion \<Rightarrow> vString c v
      | ToolsRelease \<Rightarrow> ''@TOOLS_RELEASE@''
      | Architecture \<Rightarrow> DebianArch c pf)"

text \<open>The tasks the first loop does not skip.\<close>

definition keptTask :: "task \<Rightarrow> bool" where
  "keptTask t \<longleftrightarrow> \<not> (IsPatch t \<or> DisplayName t \<noteq> ''sign'')"

text \<open>The world after the first statement of \<^verbatim>\<open>uploadRelease\<close>.\<close>

definition patchNotice :: "collab \<Rightarrow> world \<Rightarrow> world" where
  "patchNotice c w =
     (if EvgIsPatch c then
        w\<lparr>trace := trace w @ [Print (''current build is a patch; not uploading a release'' @ [CHR 0x0A])]\<rparr>
      else w)"



text \<open>The names \<^verbatim>\<open>uploadRelease\<close> uploads one artifact under, in the order of the
  uploads.\<close>

definition publishedNames :: "collab \<Rightarrow> version \<Rightarrow> platform \<Rightarrow> string \<Rightarrow> string list" where
  "publishedNames c v pf ext =
     (if vIsStable c v then [unstableFile pf ext, stableFile c v pf ext, latestStableFile pf ext]
      else [unstableFile pf ext])"

text \<open>The names uploaded for one sign task: those of its artifacts, in order.\<close>

definition taskUploads :: "collab \<Rightarrow> version \<Rightarrow> task \<Rightarrow> string list" where
  "taskUploads c v t =
     (case GetByVariant c (Variant t) of
        None \<Rightarrow> []
      | Some pf \<Rightarrow>
         (case GetArtifactsForTask c (TaskID t) of
            Inl e \<Rightarrow> []
          | Inr arts \<Rightarrow> concat (map (\<lambda>a. publishedNames c v pf (pathExt (URL a))) arts)))"

text \<open>\<^verbatim>\<open>uploadRelease\<close> up to the end of its second loop.\<close>

definition uploadAll :: "collab \<Rightarrow> version \<Rightarrow> tools_download list io" where
  "uploadAll c v =
     io_bind (checked (GetTasksForRevision c (Commit v)) ''get evergreen tasks'') (\<lambda>tasks.
     io_bind (forRange tasks (filterSignTask c) []) (\<lambda>signTasks.
     io_then
       (if length signTasks \<noteq> Count c then
          logFatal (signCountMsg (length signTasks) (Count c))
        else io_return ())
    (io_then (check (GetClient c) ''get aws client'')
    (forRange signTasks (uploadTask c v) []))))"

text \<open>An operation is \<open>quiet P\<close> when it only adds events that satisfy \<open>P\<close> to the trace and
  never panics.\<close>

definition quiet :: "(event \<Rightarrow> bool) \<Rightarrow> 'a io \<Rightarrow> bool" where
  "quiet P m \<longleftrightarrow>
     (\<forall>w. (\<exists>evs. trace (snd (m w)) = trace w @ evs \<and> list_all P evs)
          \<and> (\<forall>s. fst (m w) \<noteq> Inl (Panic s)))"

definition notFeedUpload :: "event \<Rightarrow> bool" where
  "notFeedUpload ev = (case ev of Upload b p f r \<Rightarrow> f \<noteq> feedFilename | _ \<Rightarrow> True)"

definition notUpload :: "event \<Rightarrow> bool" where
  "notUpload ev = (case ev of Upload b p f r \<Rightarrow> False | _ \<Rightarrow> True)"

text \<open>The record of an artifact in the feed: its published URL and the three digests of
  \<open>content\<close>.\<close>

definition checksumRecord :: "collab \<Rightarrow> version \<Rightarrow> platform \<Rightarrow> string \<Rightarrow> string \<Rightarrow> tools_artifact" where
  "checksumRecord c v pf ext content =
     \<lparr>artURL = artifactURL c v pf ext, Md5 = md5Hex c content,
      Sha1 = sha1Hex c content, Sha256 = sha256Hex c content\<rparr>"

subsection \<open>Example inputs\<close>

text \<open>One platform, one sign task with one archive, a stable version, and no failure
  anywhere. In the examples \<^verbatim>\<open>filepath.Join\<close> puts a slash between the elements, which
  is what Go does on Linux for elements that need no cleaning.\<close>

fun joinPath :: "string list \<Rightarrow> string" where
  "joinPath [] = []"
| "joinPath [x] = x"
| "joinPath (x # y # xs) = x @ ''/'' @ joinPath (y # xs)"

definition exPlatform :: platform where
  "exPlatform = \<lparr>Name = ''p'', Arch = ''a'', OS = OSLinux\<rparr>"

definition exTask :: task where
  "exTask = \<lparr>TaskID = ''t1'', Variant = ''v1'', DisplayName = ''sign'', IsPatch = False\<rparr>"

definition exCollab :: collab where
  "exCollab =
     \<lparr>EvgIsPatch = False,
      GetTasksForRevision = (\<lambda>_. Inr [exTask]),
      GetArtifactsForTask = (\<lambda>_. Inr [\<lparr>URL = ''h/f.tgz''\<rparr>]),
      GetByVariant = (\<lambda>s. if s = ''v1'' then Some exPlatform else None),
      Count = 1,
      ArtifactExtensions = (\<lambda>_. [''.tgz'']),
      DebianArch = (\<lambda>_. ''amd64''),
      GetFromEnv = Inr exPlatform,
      GetClient = None,
      UploadFile = (\<lambda>_ _ _. None),
      GetCurrent = Inr \<lparr>Major = 100, Minor = 3, Patch = 1, Pre = [], Commit = ''abc''\<rparr>,
      vString = (\<lambda>_. ''1''),
      vStringWithoutPre = (\<lambda>_. ''1''),
      vRPMRelease = (\<lambda>_. ''1''),
      vIsStable = (\<lambda>_. True),
      httpGet = (\<lambda>_. Inr ''body''),
      ioErr = (\<lambda>_ _. None),
      md5Hex = (\<lambda>s. ''m'' @ s),
      sha1Hex = (\<lambda>s. ''s'' @ s),
      sha256Hex = (\<lambda>s. ''S'' @ s),
      jsonEncode = (\<lambda>_. ''{}''),
      osGetwd = Inr ''/w'',
      cmdOutput = (\<lambda>_ _. ([], None)),
      stringsTrimSpace = (\<lambda>s. s),
      fmtQuote = (\<lambda>s. s),
      fmtSprintf = (\<lambda>s. s),
      filepathJoin = joinPath,
      pathSeparator = ''/''\<rparr>"

definition exVersion :: version where
  "exVersion = \<lparr>Major = 100, Minor = 3, Patch = 1, Pre = [], Commit = ''abc''\<rparr>"

definition exWorld :: world where
  "exWorld = \<lparr>files = Map.empty, trace = []\<rparr>"

text \<open>A Windows build of version 101.0.0, with the SASL library in its place.\<close>

definition msiCollab :: collab where
  "msiCollab = exCollab
     \<lparr>GetFromEnv := Inr \<lparr>Name = ''windows'', Arch = ''x86_64'', OS = OSWindows\<rparr>,
      GetCurrent := Inr \<lparr>Major = 101, Minor = 0, Patch = 0, Pre = [], Commit = ''abc''\<rparr>\<rparr>"

definition msiWorld :: world where
  "msiWorld = \<lparr>files = [''/sasl/bin/libsasl.dll'' \<mapsto> ''dll''], trace = []\<rparr>"

text \<open>A spec template with the three fields, two of them next to each other, and a
  control template that also has a release field; both hold an e-mail address.\<close>

definition specTemplate :: "segment list" where
  "specTemplate = [Lit ''Packager: x <a@b.c> Version: '', Field ToolsVersion, Lit ''_'',
                   Field ToolsRelease, Field Architecture]"

definition controlTemplate :: "segment list" where
  "controlTemplate = [Lit ''Maintainer: x <a@b.c> Version: '', Field ToolsVersion,
                      Lit '' Architecture: '', Field Architecture, Lit '' '', Field ToolsRelease]"

definition rpmWorld :: world where
  "rpmWorld = \<lparr>files = [''../installer/rpm/mongodb-database-tools.spec'' \<mapsto> render specTemplate],
               trace = []\<rparr>"

definition debWorld :: world where
  "debWorld = \<lparr>files = [''../installer/deb/control'' \<mapsto> render controlTemplate], trace = []\<rparr>"

definition debReleaseWorld :: world where
  "debReleaseWorld =
     \<lparr>files = [''../installer/deb/control'' \<mapsto> ''Version: @TOOLS_VERSION@ Release: @TOOLS_RELEASE@''],
      trace = []\<rparr>"

text \<open>A control template with two architecture fields, a spec template in which the
  text between two fields is the name of a token, and a version that prints as an
  underscore, in a spec template where that completes the name of a token.\<close>

definition debTwoArchWorld :: world where
  "debTwoArchWorld =
     \<lparr>files = [''../installer/deb/control'' \<mapsto> ''Architecture: @ARCHITECTURE@ Arch: @ARCHITECTURE@''],
      trace = []\<rparr>"

definition rpmOverlapWorld :: world where
  "rpmOverlapWorld =
     \<lparr>files = [''../installer/rpm/mongodb-database-tools.spec'' \<mapsto>
                 render [Field ToolsRelease, Lit ''TOOLS_VERSION'', Field Architecture]],
      trace = []\<rparr>"

definition underscoreCollab :: collab where
  "underscoreCollab = exCollab\<lparr>vStringWithoutPre := \<lambda>_. ''_''\<rparr>"

definition rpmValueWorld :: world where
  "rpmValueWorld =
     \<lparr>files = [''../installer/rpm/mongodb-database-tools.spec'' \<mapsto>
                 render [Lit ''@TOOLS'', Field ToolsVersion, Lit ''RELEASE@'']],
      trace = []\<rparr>"

text \<open>A matrix of two platforms, each with the one extension \<^verbatim>\<open>.tgz\<close>, and two sign tasks
  that are both of the variant of the first platform, each with one artifact whose URL
  ends in \<^verbatim>\<open>.tar.gz\<close>.\<close>

definition secondPlatform :: platform where
  "secondPlatform = \<lparr>Name = ''q'', Arch = ''b'', OS = OSLinux\<rparr>"

definition twoCollab :: collab where
  "twoCollab = exCollab
     \<lparr>GetTasksForRevision := (\<lambda>_. Inr [exTask, exTask\<lparr>TaskID := ''t2''\<rparr>]),
      GetArtifactsForTask := (\<lambda>_. Inr [\<lparr>URL = ''h/f.tar.gz''\<rparr>]),
      GetByVariant := (\<lambda>s. if s = ''v1'' then Some exPlatform
                           else if s = ''v2'' then Some secondPlatform else None),
      Count := 2\<rparr>"

text \<open>The same run, except that the upload of the first file fails.\<close>

definition failCollab :: collab where
  "failCollab = exCollab\<lparr>UploadFile :=
      (\<lambda>bucket objPath file.
         if file = ''mongodb-database-tools-p-a-unstable.tgz'' then Some ''upload failed''
         else None)\<rparr>"

lemmas run_defs =
  uploadRelease_def uploadTask_def uploadArtifact_def uploadFiles_def stabilize_def
  uploadFeed_def filterSignTask_def copyFile_def downloadFile_def computeMD5_def
  computeSHA1_def computeSHA256_def getFile_def putFile_def awsUploadFile_def
  check_def checked_def io_bind_def io_then_def io_return_def emit_def logFatal_def panic_def
  unstableFile_def stableFile_def latestStableFile_def feedFilename_def artifactURL_def
  uploadingTo_def emptyDownload_def pathExt_def Let_def

lemmas meta_defs =
  createSpecFile_def createControlFile_def rpmTemplatePath_def debTemplatePath_def specFile_def
  controlFile_def getFile_def putFile_def check_def checked_def io_bind_def io_then_def
  io_return_def emit_def logFatal_def Let_def

lemmas msi_defs =
  msiStage_def useWorkingDir_def osLink_def copyFile_def getFile_def putFile_def check_def
  checked_def io_bind_def io_then_def io_return_def emit_def logFatal_def Let_def
  msiBuildDir_def saslDLLs_def msiStaticFiles_def msiFiles_def binaries_def

lemmas ex_defs = exPlatform_def exTask_def exCollab_def exVersion_def exWorld_def

section \<open>Properties\<close>

subsection \<open>Sequencing\<close>

lemma io_bind_Inr: "m w = (Inr x, w') \<Longrightarrow> io_bind m f w = f x w'"
  by (simp add: io_bind_def)

lemma io_bind_Inl: "m w = (Inl e, w') \<Longrightarrow> io_bind m f w = (Inl e, w')"
  by (simp add: io_bind_def)

lemma uploadsOf_append: "uploadsOf (xs @ ys) = uploadsOf xs @ uploadsOf ys"
  by (induction xs rule: uploadsOf.induct) auto

lemma uploadsOf_patchNotice: "uploadsOf (trace (patchNotice c w)) = uploadsOf (trace w)"
  by (simp add: patchNotice_def uploadsOf_append)

subsection \<open>The first loop of \<^verbatim>\<open>uploadRelease\<close>\<close>

lemma filter_known:
  "\<forall>t\<in>set tasks. keptTask t \<longrightarrow> GetByVariant c (Variant t) \<noteq> None \<Longrightarrow>
   forRange tasks (filterSignTask c) acc w = (Inr (acc @ filter keptTask tasks), w)"
proof (induction tasks arbitrary: acc)
  case Nil
  then show ?case by (simp add: io_return_def)
next
  case (Cons t ts)
  then have ih: "\<And>acc. forRange ts (filterSignTask c) acc w = (Inr (acc @ filter keptTask ts), w)"
    by simp
  show ?case
  proof (cases "keptTask t")
    case True
    with Cons.prems obtain pf where "GetByVariant c (Variant t) = Some pf" by auto
    with True have "filterSignTask c t acc w = (Inr (acc @ [t]), w)"
      by (simp add: filterSignTask_def keptTask_def io_return_def)
    with True ih show ?thesis by (simp add: io_bind_Inr)
  next
    case False
    then have "filterSignTask c t acc w = (Inr acc, w)"
      by (auto simp add: filterSignTask_def keptTask_def io_return_def)
    with False ih show ?thesis by (simp add: io_bind_Inr)
  qed
qed

lemma filter_unknown:
  "\<exists>t\<in>set tasks. keptTask t \<and> GetByVariant c (Variant t) = None \<Longrightarrow>
   \<exists>t\<in>set tasks. keptTask t \<and> GetByVariant c (Variant t) = None \<and>
     forRange tasks (filterSignTask c) acc w = (Inl (Fatal (unknownVariantMsg (Variant t))), w)"
proof (induction tasks arbitrary: acc)
  case Nil
  then show ?case by simp
next
  case (Cons t ts)
  show ?case
  proof (cases "keptTask t")
    case kept: True
    show ?thesis
    proof (cases "GetByVariant c (Variant t)")
      case None
      with kept have "filterSignTask c t acc w = (Inl (Fatal (unknownVariantMsg (Variant t))), w)"
        by (simp add: filterSignTask_def keptTask_def logFatal_def)
      with kept None show ?thesis by (auto simp: io_bind_Inl)
    next
      case (Some pf)
      with kept have step: "filterSignTask c t acc w = (Inr (acc @ [t]), w)"
        by (simp add: filterSignTask_def keptTask_def io_return_def)
      from Some Cons.prems have "\<exists>t\<in>set ts. keptTask t \<and> GetByVariant c (Variant t) = None"
        by auto
      from Cons.IH[OF this, of "acc @ [t]"] step show ?thesis by (auto simp: io_bind_Inr)
    qed
  next
    case False
    then have step: "filterSignTask c t acc w = (Inr acc, w)"
      by (auto simp add: filterSignTask_def keptTask_def io_return_def)
    from False Cons.prems have "\<exists>t\<in>set ts. keptTask t \<and> GetByVariant c (Variant t) = None"
      by auto
    from Cons.IH[OF this, of acc] step show ?thesis by (auto simp: io_bind_Inr)
  qed
qed

lemma uploadRelease_start:
  "uploadRelease c v w =
     io_bind (checked (GetTasksForRevision c (Commit v)) ''get evergreen tasks'') (\<lambda>tasks.
     io_bind (forRange tasks (filterSignTask c) []) (\<lambda>signTasks.
     io_then
       (if length signTasks \<noteq> Count c then
          logFatal (signCountMsg (length signTasks) (Count c))
        else io_return ())
    (io_then (check (GetClient c) ''get aws client'')
    (io_bind (forRange signTasks (uploadTask c v) []) (\<lambda>dls.
     if vIsStable c v then uploadFeed c v dls else io_return ()))))) (patchNotice c w)"
  by (cases "EvgIsPatch c")
     (simp_all add: uploadRelease_def patchNotice_def io_then_def io_bind_def emit_def io_return_def)

lemma uploadRelease_unknown:
  assumes "GetTasksForRevision c (Commit v) = Inr tasks"
    and "forRange tasks (filterSignTask c) [] (patchNotice c w) = (Inl e, w')"
  shows "uploadRelease c v w = (Inl e, w')"
  unfolding uploadRelease_start using assms
  by (simp add: io_bind_def io_return_def checked_def)

lemma uploadRelease_known:
  assumes "GetTasksForRevision c (Commit v) = Inr tasks"
    and "forRange tasks (filterSignTask c) [] (patchNotice c w) = (Inr signTasks, w')"
  shows "uploadRelease c v w =
     io_then
       (if length signTasks \<noteq> Count c then
          logFatal (signCountMsg (length signTasks) (Count c))
        else io_return ())
    (io_then (check (GetClient c) ''get aws client'')
    (io_bind (forRange signTasks (uploadTask c v) []) (\<lambda>dls.
     if vIsStable c v then uploadFeed c v dls else io_return ()))) w'"
  unfolding uploadRelease_start using assms
  by (simp add: io_bind_def io_return_def checked_def)

subsection \<open>Quiet operations\<close>

lemma io_bind_assoc: "io_bind (io_bind m f) g = io_bind m (\<lambda>x. io_bind (f x) g)"
  by (rule ext) (simp add: io_bind_def split: prod.splits sum.splits)

lemma quiet_return: "quiet P (io_return x)"
  by (simp add: quiet_def io_return_def)

lemma quiet_logFatal: "quiet P (logFatal s)"
  by (simp add: quiet_def logFatal_def)

lemma quiet_emit: "P ev \<Longrightarrow> quiet P (emit ev)"
  by (simp add: quiet_def emit_def)

lemma quiet_check: "quiet P (check err t)"
  by (cases err) (simp_all add: check_def quiet_return quiet_logFatal)

lemma quiet_checked: "quiet P (checked r t)"
  by (cases r) (simp_all add: checked_def quiet_return quiet_logFatal)

lemma quiet_putFile: "quiet P (putFile f s)"
  by (simp add: quiet_def putFile_def)

lemma quiet_bind_post:
  assumes m: "quiet P m"
    and post: "\<And>w x w'. m w = (Inr x, w') \<Longrightarrow> Q x"
    and f: "\<And>x. Q x \<Longrightarrow> quiet P (f x)"
  shows "quiet P (io_bind m f)"
  unfolding quiet_def
proof (intro allI conjI)
  fix w
  obtain r w1 where mw: "m w = (r, w1)" by (cases "m w")
  from m mw obtain evs1 where e1: "trace w1 = trace w @ evs1" "list_all P evs1"
    by (auto simp: quiet_def dest: spec[of _ w])
  show "\<exists>evs. trace (snd (io_bind m f w)) = trace w @ evs \<and> list_all P evs"
  proof (cases r)
    case (Inl e)
    with mw e1 show ?thesis by (auto simp: io_bind_def)
  next
    case (Inr x)
    with mw have "Q x" by (auto intro: post)
    from f[OF this] obtain evs2 where
      "trace (snd (f x w1)) = trace w1 @ evs2" "list_all P evs2"
      by (auto simp: quiet_def dest: spec[of _ w1])
    with mw e1 Inr show ?thesis by (auto simp: io_bind_def)
  qed
  fix s
  show "fst (io_bind m f w) \<noteq> Inl (Panic s)"
  proof (cases r)
    case (Inl e)
    with m mw show ?thesis by (auto simp: io_bind_def quiet_def dest: spec[of _ w])
  next
    case (Inr x)
    with mw have "Q x" by (auto intro: post)
    from f[OF this] mw Inr show ?thesis by (auto simp: io_bind_def quiet_def)
  qed
qed

lemma quiet_bind: "quiet P m \<Longrightarrow> (\<And>x. quiet P (f x)) \<Longrightarrow> quiet P (io_bind m f)"
  by (rule quiet_bind_post[where Q = "\<lambda>_. True"]) simp_all

lemma quiet_then: "quiet P m \<Longrightarrow> quiet P k \<Longrightarrow> quiet P (io_then m k)"
  by (simp add: io_then_def quiet_bind)

lemma quiet_if: "quiet P a \<Longrightarrow> quiet P b \<Longrightarrow> quiet P (if t then a else b)"
  by simp

lemma quiet_forRange:
  "(\<And>x acc. x \<in> set xs \<Longrightarrow> quiet P (body x acc)) \<Longrightarrow> quiet P (forRange xs body acc)"
  by (induction xs arbitrary: acc) (auto intro: quiet_return quiet_bind)

lemma quiet_getFile: "quiet P (\<lambda>w. checked (getFile c op args f w) t w)"
  by (auto simp: quiet_def checked_def getFile_def logFatal_def io_return_def split: option.splits)

lemma quiet_awsUploadFile:
  "P (Upload b p f (UploadFile c b p f)) \<Longrightarrow> quiet P (awsUploadFile c b p f)"
  by (simp add: quiet_def awsUploadFile_def)

lemmas quiet_basic =
  quiet_bind quiet_then quiet_if quiet_return quiet_logFatal quiet_check quiet_checked
  quiet_putFile quiet_getFile

lemma quiet_copyFile: "quiet P (copyFile c src dst)"
  unfolding copyFile_def by (intro quiet_basic)

lemma quiet_downloadFile: "P (HttpGet url) \<Longrightarrow> quiet P (downloadFile c url dst)"
  unfolding downloadFile_def by (intro quiet_basic quiet_emit)

lemma quiet_compute:
  "quiet P (computeMD5 c f)" "quiet P (computeSHA1 c f)" "quiet P (computeSHA256 c f)"
  unfolding computeMD5_def computeSHA1_def computeSHA256_def by (intro quiet_basic)+

lemma quiet_stabilize: "quiet P (stabilize c v pf ext dl)"
  unfolding stabilize_def by (intro quiet_basic quiet_copyFile quiet_compute)

lemma names_not_feed:
  "unstableFile pf ext \<noteq> feedFilename" "stableFile c v pf ext \<noteq> feedFilename"
  "latestStableFile pf ext \<noteq> feedFilename"
  by (simp_all add: unstableFile_def stableFile_def latestStableFile_def feedFilename_def)

lemma quiet_uploadFiles: "quiet notFeedUpload (uploadFiles c v pf ext)"
  unfolding uploadFiles_def uploadingTo_def
  by (intro quiet_basic quiet_emit quiet_awsUploadFile) (simp_all add: notFeedUpload_def names_not_feed)

lemma quiet_uploadArtifact: "quiet notFeedUpload (uploadArtifact c v pf a dl)"
  unfolding uploadArtifact_def Let_def
  by (intro quiet_basic quiet_emit quiet_downloadFile quiet_stabilize quiet_uploadFiles)
     (simp_all add: notFeedUpload_def)

lemma quiet_uploadTask:
  assumes "GetByVariant c (Variant t) \<noteq> None"
  shows "quiet notFeedUpload (uploadTask c v t dls)"
proof -
  from assms obtain pf where "GetByVariant c (Variant t) = Some pf" by auto
  then show ?thesis
    unfolding uploadTask_def
    by (auto intro!: quiet_basic quiet_emit quiet_forRange quiet_uploadArtifact
             simp: notFeedUpload_def)
qed

lemma quiet_filterSignTask: "quiet P (filterSignTask c t acc)"
  unfolding filterSignTask_def by (auto intro: quiet_basic split: option.splits)

lemma filter_result_known:
  "forRange tasks (filterSignTask c) acc w = (Inr ts, w') \<Longrightarrow>
   \<forall>t\<in>set acc. GetByVariant c (Variant t) \<noteq> None \<Longrightarrow>
   \<forall>t\<in>set ts. GetByVariant c (Variant t) \<noteq> None"
proof (induction tasks arbitrary: acc w)
  case Nil
  then show ?case by (simp add: io_return_def)
next
  case (Cons t tasks)
  from Cons.prems(1) obtain acc1 w1 where
    step: "filterSignTask c t acc w = (Inr acc1, w1)"
    and rest: "forRange tasks (filterSignTask c) acc1 w1 = (Inr ts, w')"
    by (auto simp: io_bind_def split: prod.splits sum.splits)
  from step Cons.prems(2) have "\<forall>t\<in>set acc1. GetByVariant c (Variant t) \<noteq> None"
    by (auto simp: filterSignTask_def io_return_def logFatal_def split: if_splits option.splits)
  from Cons.IH[OF rest this] show ?case .
qed

lemma quiet_uploadAll: "quiet notFeedUpload (uploadAll c v)"
  unfolding uploadAll_def
proof (rule quiet_bind[OF quiet_checked])
  fix tasks
  show "quiet notFeedUpload
          (io_bind (forRange tasks (filterSignTask c) []) (\<lambda>signTasks.
           io_then
             (if length signTasks \<noteq> Count c then
                logFatal (signCountMsg (length signTasks) (Count c))
              else io_return ())
          (io_then (check (GetClient c) ''get aws client'')
          (forRange signTasks (uploadTask c v) []))))"
  proof (rule quiet_bind_post[where Q = "\<lambda>ts. \<forall>t\<in>set ts. GetByVariant c (Variant t) \<noteq> None"])
    show "quiet notFeedUpload (forRange tasks (filterSignTask c) [])"
      by (intro quiet_forRange quiet_filterSignTask)
  next
    fix w x w'
    assume "forRange tasks (filterSignTask c) [] w = (Inr x, w')"
    from filter_result_known[OF this] show "\<forall>t\<in>set x. GetByVariant c (Variant t) \<noteq> None"
      by simp
  next
    fix x :: "task list"
    assume "\<forall>t\<in>set x. GetByVariant c (Variant t) \<noteq> None"
    then show "quiet notFeedUpload
        (io_then
          (if length x \<noteq> Count c then logFatal (signCountMsg (length x) (Count c))
           else io_return ())
          (io_then (check (GetClient c) ''get aws client'') (forRange x (uploadTask c v) [])))"
      by (intro quiet_basic quiet_forRange quiet_uploadTask) simp
  qed
qed

lemma uploadRelease_uploadAll:
  "uploadRelease c v w =
     io_bind (uploadAll c v)
       (\<lambda>dls. if vIsStable c v then uploadFeed c v dls else io_return ()) (patchNotice c w)"
  unfolding uploadRelease_start uploadAll_def io_then_def io_bind_assoc ..

lemma uploadFeed_cases:
  "(fst (uploadFeed c v dls w) = Inr () \<and>
      uploadsOf (trace (snd (uploadFeed c v dls w))) = uploadsOf (trace w) @ [feedFilename])
   \<or> ((\<exists>msg. fst (uploadFeed c v dls w) = Inl (Fatal msg)) \<and>
      trace (snd (uploadFeed c v dls w)) = trace w)"
  by (cases "ioErr c OsCreate [feedFilename]"; cases "ioErr c JsonEncode [feedFilename]")
     (simp_all add: uploadFeed_def Let_def io_then_def io_bind_def check_def logFatal_def
        io_return_def putFile_def emit_def awsUploadFile_def uploadsOf_append)

lemma notFeedUpload_uploadsOf: "list_all notFeedUpload evs \<Longrightarrow> feedFilename \<notin> set (uploadsOf evs)"
  by (induction evs rule: uploadsOf.induct) (auto simp: notFeedUpload_def)

subsection \<open>The collaborators other than \<^verbatim>\<open>env.EvgIsPatch\<close> decide the run\<close>

lemma patch_indep:
  "getFile (c\<lparr>EvgIsPatch := b\<rparr>) = getFile c"
  "copyFile (c\<lparr>EvgIsPatch := b\<rparr>) = copyFile c"
  "downloadFile (c\<lparr>EvgIsPatch := b\<rparr>) = downloadFile c"
  "computeMD5 (c\<lparr>EvgIsPatch := b\<rparr>) = computeMD5 c"
  "computeSHA1 (c\<lparr>EvgIsPatch := b\<rparr>) = computeSHA1 c"
  "computeSHA256 (c\<lparr>EvgIsPatch := b\<rparr>) = computeSHA256 c"
  "awsUploadFile (c\<lparr>EvgIsPatch := b\<rparr>) = awsUploadFile c"
  "stableFile (c\<lparr>EvgIsPatch := b\<rparr>) = stableFile c"
  "filterSignTask (c\<lparr>EvgIsPatch := b\<rparr>) = filterSignTask c"
  "artifactURL (c\<lparr>EvgIsPatch := b\<rparr>) = artifactURL c"
  by (intro ext, simp add: getFile_def copyFile_def downloadFile_def computeMD5_def
        computeSHA1_def computeSHA256_def awsUploadFile_def stableFile_def filterSignTask_def
        artifactURL_def)+

lemma patch_indep2:
  "stabilize (c\<lparr>EvgIsPatch := b\<rparr>) = stabilize c"
  "uploadFiles (c\<lparr>EvgIsPatch := b\<rparr>) = uploadFiles c"
  "uploadFeed (c\<lparr>EvgIsPatch := b\<rparr>) = uploadFeed c"
  by (intro ext, simp add: stabilize_def uploadFiles_def uploadFeed_def patch_indep cong: if_cong)+

lemma patch_indep3:
  "uploadArtifact (c\<lparr>EvgIsPatch := b\<rparr>) = uploadArtifact c"
  by (intro ext, simp add: uploadArtifact_def patch_indep patch_indep2)

lemma patch_indep4:
  "uploadTask (c\<lparr>EvgIsPatch := b\<rparr>) = uploadTask c"
  by (intro ext, simp add: uploadTask_def patch_indep3 cong: if_cong option.case_cong)

lemma patch_indep5:
  "uploadAll (c\<lparr>EvgIsPatch := b\<rparr>) = uploadAll c"
  by (intro ext, simp add: uploadAll_def patch_indep patch_indep4 cong: if_cong option.case_cong)

subsection \<open>The uploads of one artifact\<close>

lemma quiet_uploads:
  assumes "quiet notUpload m"
  shows "uploadsOf (trace (snd (m w))) = uploadsOf (trace w)"
proof -
  from assms obtain evs where "trace (snd (m w)) = trace w @ evs" "list_all notUpload evs"
    by (auto simp: quiet_def dest: spec[of _ w])
  moreover have "list_all notUpload evs \<Longrightarrow> uploadsOf evs = []" for evs
    by (induction evs rule: uploadsOf.induct) (auto simp: notUpload_def)
  ultimately show ?thesis by (simp add: uploadsOf_append)
qed

lemma publishedNames_distinct:
  assumes "vString c v \<noteq> ''unstable''" and "vString c v \<noteq> ''latest-stable''"
  shows "distinct (publishedNames c v pf ext)"
proof -
  define pre where "pre = ''mongodb-database-tools-'' @ Name pf @ ''-'' @ Arch pf @ ''-''"
  have u: "unstableFile pf ext = (pre @ ''unstable'') @ ext"
    and s: "stableFile c v pf ext = (pre @ vString c v) @ ext"
    and l: "latestStableFile pf ext = (pre @ ''latest-stable'') @ ext"
    by (simp_all add: pre_def unstableFile_def stableFile_def latestStableFile_def)
  have "unstableFile pf ext \<noteq> stableFile c v pf ext"
    unfolding u s append_same_eq same_append_eq using assms(1) by simp
  moreover have "stableFile c v pf ext \<noteq> latestStableFile pf ext"
    unfolding l s append_same_eq same_append_eq using assms(2) by simp
  moreover have "unstableFile pf ext \<noteq> latestStableFile pf ext"
    unfolding u l append_same_eq same_append_eq by simp
  ultimately show ?thesis by (simp add: publishedNames_def)
qed

lemma uploadFiles_run:
  "\<exists>w'. uploadFiles c v pf ext w = (Inr (), w') \<and> files w' = files w \<and>
     uploadsOf (trace w') = uploadsOf (trace w) @ publishedNames c v pf ext"
  by (simp add: uploadFiles_def publishedNames_def io_then_def io_bind_def emit_def
        awsUploadFile_def io_return_def uploadingTo_def uploadsOf_append)

lemma uploadArtifact_uploads:
  assumes "uploadArtifact c v pf a dl w = (Inr dl', w')"
  shows "uploadsOf (trace w') = uploadsOf (trace w) @ publishedNames c v pf (pathExt (URL a))"
proof -
  let ?ext = "pathExt (URL a)"
  let ?pre = "io_then (emit (Print (''  downloading '' @ URL a @ [CHR 0x0A])))
     (io_then (downloadFile c (URL a) (unstableFile pf ?ext)) (stabilize c v pf ?ext dl))"
  have eq: "uploadArtifact c v pf a dl
     = io_bind ?pre (\<lambda>dl'. io_then (uploadFiles c v pf ?ext) (io_return dl'))"
    by (simp add: uploadArtifact_def Let_def io_then_def io_bind_assoc)
  have q: "quiet notUpload ?pre"
    by (intro quiet_basic quiet_emit quiet_downloadFile quiet_stabilize) (simp_all add: notUpload_def)
  obtain r w1 where pre: "?pre w = (r, w1)" by (cases "?pre w")
  with assms eq obtain dl1 where r: "r = Inr dl1"
    by (cases r) (auto simp: io_bind_def)
  from quiet_uploads[OF q, of w] pre have u1: "uploadsOf (trace w1) = uploadsOf (trace w)" by simp
  from uploadFiles_run[of c v pf ?ext w1] obtain w2 where
    w2: "uploadFiles c v pf ?ext w1 = (Inr (), w2)"
        "uploadsOf (trace w2) = uploadsOf (trace w1) @ publishedNames c v pf ?ext" by blast
  from assms eq pre r w2 have "w' = w2"
    by (simp add: io_bind_def io_then_def io_return_def)
  with w2 u1 show ?thesis by simp
qed

lemma forRange_uploadArtifact_uploads:
  "forRange arts (uploadArtifact c v pf) dl w = (Inr dl', w') \<Longrightarrow>
   uploadsOf (trace w') = uploadsOf (trace w)
      @ concat (map (\<lambda>a. publishedNames c v pf (pathExt (URL a))) arts)"
proof (induction arts arbitrary: dl w)
  case Nil
  then show ?case by (simp add: io_return_def)
next
  case (Cons a arts)
  from Cons.prems obtain dl1 w1 where
    step: "uploadArtifact c v pf a dl w = (Inr dl1, w1)"
    and rest: "forRange arts (uploadArtifact c v pf) dl1 w1 = (Inr dl', w')"
    by (auto simp: io_bind_def split: prod.splits sum.splits)
  from uploadArtifact_uploads[OF step] Cons.IH[OF rest] show ?case by simp
qed

lemma uploadTask_uploads:
  assumes "uploadTask c v t dls w = (Inr dls', w')"
  shows "\<exists>pf arts.
      GetByVariant c (Variant t) = Some pf
    \<and> GetArtifactsForTask c (TaskID t) = Inr arts
    \<and> length arts = length (ArtifactExtensions c pf)
    \<and> uploadsOf (trace w') = uploadsOf (trace w)
         @ concat (map (\<lambda>a. publishedNames c v pf (pathExt (URL a))) arts)"
proof -
  from assms obtain pf where pf: "GetByVariant c (Variant t) = Some pf"
    by (cases "GetByVariant c (Variant t)")
       (auto simp: uploadTask_def io_then_def io_bind_def emit_def panic_def)
  from assms pf obtain arts where arts: "GetArtifactsForTask c (TaskID t) = Inr arts"
    by (cases "GetArtifactsForTask c (TaskID t)")
       (auto simp: uploadTask_def io_then_def io_bind_def emit_def io_return_def checked_def logFatal_def)
  from assms pf arts have len: "length arts = length (ArtifactExtensions c pf)"
    by (cases "length arts = length (ArtifactExtensions c pf)")
       (auto simp: uploadTask_def io_then_def io_bind_def emit_def io_return_def checked_def logFatal_def)
  let ?w1 = "w\<lparr>trace := trace w @ [Print ([CHR 0x0A] @ ''getting artifacts for '' @ Variant t @ [CHR 0x0A])]\<rparr>"
  from assms pf arts len obtain dl where
    "forRange arts (uploadArtifact c v pf) (emptyDownload pf) ?w1 = (Inr dl, w')"
    by (auto simp: uploadTask_def io_then_def io_bind_def emit_def io_return_def checked_def
             split: prod.splits sum.splits)
  from forRange_uploadArtifact_uploads[OF this]
  have "uploadsOf (trace w') = uploadsOf (trace w)
         @ concat (map (\<lambda>a. publishedNames c v pf (pathExt (URL a))) arts)"
    by (simp add: uploadsOf_append)
  with pf arts len show ?thesis by simp
qed

lemma forRange_uploadTask_uploads:
  "forRange ts (uploadTask c v) dls w = (Inr dls', w') \<Longrightarrow>
   uploadsOf (trace w') = uploadsOf (trace w) @ concat (map (taskUploads c v) ts)
   \<and> (\<forall>t\<in>set ts. \<exists>pf arts. GetByVariant c (Variant t) = Some pf
          \<and> GetArtifactsForTask c (TaskID t) = Inr arts
          \<and> length arts = length (ArtifactExtensions c pf))"
proof (induction ts arbitrary: dls w)
  case Nil
  then show ?case by (simp add: io_return_def)
next
  case (Cons t ts)
  from Cons.prems obtain dls1 w1 where
    step: "uploadTask c v t dls w = (Inr dls1, w1)"
    and rest: "forRange ts (uploadTask c v) dls1 w1 = (Inr dls', w')"
    by (auto simp: io_bind_def split: prod.splits sum.splits)
  from uploadTask_uploads[OF step] obtain pf arts where
    t: "GetByVariant c (Variant t) = Some pf" "GetArtifactsForTask c (TaskID t) = Inr arts"
       "length arts = length (ArtifactExtensions c pf)"
       "uploadsOf (trace w1) = uploadsOf (trace w)
          @ concat (map (\<lambda>a. publishedNames c v pf (pathExt (URL a))) arts)"
    by blast
  then have "uploadsOf (trace w1) = uploadsOf (trace w) @ taskUploads c v t"
    by (simp add: taskUploads_def)
  with Cons.IH[OF rest] t(1-3) show ?case by auto
qed

lemma filter_result:
  assumes "forRange tasks (filterSignTask c) [] w = (Inr ts, w')"
  shows "ts = filter keptTask tasks \<and> w' = w"
proof (cases "\<forall>t\<in>set tasks. keptTask t \<longrightarrow> GetByVariant c (Variant t) \<noteq> None")
  case True
  from filter_known[OF True, of "[]" w] assms show ?thesis by simp
next
  case False
  then have "\<exists>t\<in>set tasks. keptTask t \<and> GetByVariant c (Variant t) = None" by auto
  from filter_unknown[OF this, of "[]" w] assms show ?thesis by auto
qed

subsection \<open>Checksums\<close>

lemma compute_reads:
  "computeMD5 c f w = (Inr x, w') \<Longrightarrow> w' = w \<and> (\<exists>content. files w f = Some content \<and> x = md5Hex c content)"
  "computeSHA1 c f w = (Inr y, w') \<Longrightarrow> w' = w \<and> (\<exists>content. files w f = Some content \<and> y = sha1Hex c content)"
  "computeSHA256 c f w = (Inr z, w') \<Longrightarrow> w' = w \<and> (\<exists>content. files w f = Some content \<and> z = sha256Hex c content)"
  by (auto simp: computeMD5_def computeSHA1_def computeSHA256_def io_bind_def checked_def
        getFile_def logFatal_def io_return_def split: option.splits)

lemma stabilize_stable:
  assumes run: "stabilize c v pf ext dl w = (Inr dl', w')" and stable: "vIsStable c v"
  shows "\<exists>content. files w' (latestStableFile pf ext) = Some content \<and>
           dl' = (if ext = ''.tgz'' \<or> ext = ''.zip''
                  then dl\<lparr>Archive := checksumRecord c v pf ext content\<rparr>
                  else dl\<lparr>Package := Some (checksumRecord c v pf ext content)\<rparr>)"
proof -
  from run stable obtain r1 w1 r2 w2 m w3 s w4 h w5 where
    "copyFile c (unstableFile pf ext) (stableFile c v pf ext) w = (Inr r1, w1)"
    "copyFile c (unstableFile pf ext) (latestStableFile pf ext) w1 = (Inr r2, w2)"
    and m: "computeMD5 c (latestStableFile pf ext) w2 = (Inr m, w3)"
    and s: "computeSHA1 c (latestStableFile pf ext) w3 = (Inr s, w4)"
    and h: "computeSHA256 c (latestStableFile pf ext) w4 = (Inr h, w5)"
    and res: "w' = w5"
      "dl' = (if ext = ''.tgz'' \<or> ext = ''.zip''
              then dl\<lparr>Archive := \<lparr>artURL = artifactURL c v pf ext, Md5 = m, Sha1 = s, Sha256 = h\<rparr>\<rparr>
              else dl\<lparr>Package := Some \<lparr>artURL = artifactURL c v pf ext, Md5 = m, Sha1 = s, Sha256 = h\<rparr>\<rparr>)"
    by (auto simp: stabilize_def io_bind_def io_return_def split: prod.splits sum.splits)
  from compute_reads(1)[OF m] compute_reads(2)[OF s] compute_reads(3)[OF h] res
  show ?thesis by (auto simp: checksumRecord_def)
qed

subsection \<open>Decimal numbers\<close>

lemma digit_cases: "d < 10 \<Longrightarrow> d = 0 \<or> d = 1 \<or> d = 2 \<or> d = 3 \<or> d = 4 \<or> d = 5 \<or> d = 6 \<or> d = 7 \<or> d = 8 \<or> d = (9::nat)"
  by arith

lemma digitChar_0: "d < 10 \<Longrightarrow> digitChar d = CHR ''0'' \<Longrightarrow> d = 0"
  by (drule digit_cases) (auto simp: digitChar_def)

lemma digitChar_1: "d < 10 \<Longrightarrow> digitChar d = CHR ''1'' \<Longrightarrow> d = 1"
  by (drule digit_cases) (auto simp: digitChar_def)

lemma digits_nonempty: "digits n \<noteq> []"
  by (subst digits.simps) simp

lemma digits_one: "digits k = [ch] \<Longrightarrow> k < 10 \<and> digitChar k = ch"
  by (subst (asm) digits.simps) (auto simp: digits_nonempty split: if_splits)

lemma digits_snoc: "digits n = xs @ [ch] \<Longrightarrow> xs \<noteq> [] \<Longrightarrow>
   10 \<le> n \<and> digits (n div 10) = xs \<and> digitChar (n mod 10) = ch"
  by (subst (asm) digits.simps) (auto split: if_splits)



lemma digits_100: "digits n = ''100'' \<Longrightarrow> n = 100"
proof -
  assume a: "digits n = ''100''"
  define m where "m = n div 10"
  define k where "k = m div 10"
  from a have "digits n = ''10'' @ [CHR ''0'']" by simp
  from digits_snoc[OF this] have n: "digits m = ''10''" "digitChar (n mod 10) = CHR ''0''"
    by (simp_all add: m_def)
  from n(1) have "digits m = ''1'' @ [CHR ''0'']" by simp
  from digits_snoc[OF this] have m: "digits k = ''1''" "digitChar (m mod 10) = CHR ''0''"
    by (simp_all add: k_def)
  from digits_one[OF m(1)] have k: "k < 10" "digitChar k = CHR ''1''"
    by simp_all
  from digitChar_1[OF k] have k1: "k = 1" .
  from digitChar_0[OF _ m(2)] have m0: "m mod 10 = 0" by simp
  from digitChar_0[OF _ n(2)] have n0: "n mod 10 = 0" by simp
  have "m = 10 * k + m mod 10" unfolding k_def by simp
  with k1 m0 have "m = 10" by simp
  moreover have "n = 10 * m + n mod 10" unfolding m_def by simp
  ultimately show "n = 100" using n0 by simp
qed

lemma showInt_100: "showInt i = ''100'' \<longleftrightarrow> i = 100"
proof
  assume "showInt i = ''100''"
  then show "i = 100"
    by (auto simp: showInt_def split: if_splits dest: digits_100)
next
  assume "i = 100"
  then show "showInt i = ''100''"
    by (simp add: showInt_def digits.simps digitChar_def)
qed


subsection \<open>\<^verbatim>\<open>buildMSI\<close> before the toolchain\<close>

lemma runsOf_append: "runsOf (xs @ ys) = runsOf xs @ runsOf ys"
  by (induction xs rule: runsOf.induct) auto

lemma quiet_runs:
  assumes "quiet notRun m"
  shows "runsOf (trace (snd (m w))) = runsOf (trace w)"
proof -
  from assms obtain evs where "trace (snd (m w)) = trace w @ evs" "list_all notRun evs"
    by (auto simp: quiet_def dest: spec[of _ w])
  moreover have "list_all notRun evs \<Longrightarrow> runsOf evs = []" for evs
    by (induction evs rule: runsOf.induct) (auto simp: notRun_def)
  ultimately show ?thesis by (simp add: runsOf_append)
qed

lemma quiet_fatal:
  "quiet P m \<Longrightarrow> m w = (Inl e, w') \<Longrightarrow> \<exists>msg. e = Fatal msg"
  by (cases e) (auto simp: quiet_def dest: spec[of _ w])

lemma quiet_osLink: "P (Link src dst) \<Longrightarrow> quiet P (osLink c src dst)"
  by (simp add: quiet_def osLink_def)

lemma quiet_useWorkingDir:
  "P (RemoveAll dir) \<Longrightarrow> P (MkdirAll dir) \<Longrightarrow> P (Chdir dir) \<Longrightarrow> quiet P (useWorkingDir c dir)"
  unfolding useWorkingDir_def by (intro quiet_basic quiet_emit)

lemma quiet_msiStage: "quiet notRun (msiStage c)"
  unfolding msiStage_def Let_def
  by (intro quiet_basic quiet_emit quiet_useWorkingDir quiet_forRange quiet_copyFile quiet_osLink)
     (simp_all add: notRun_def)

subsection \<open>Replacing the fields of a template\<close>

lemma tokenText_nonempty: "tokenText t \<noteq> []"
  by (simp add: tokenText_def)

lemma replace_zero: "stringsReplace s old new 0 = s"
  by (simp add: stringsReplace.simps)

lemma replace_nil: "stringsReplace [] (tokenText t) v n = []"
  by (simp add: stringsReplace.simps[of "[]"] tokenText_def)

lemma replace_match:
  "n \<noteq> 0 \<Longrightarrow>
   stringsReplace (tokenText t @ X) (tokenText t) v n
     = v @ stringsReplace X (tokenText t) v (n - 1)"
  by (simp add: stringsReplace.simps[of "tokenText t @ X"] tokenText_nonempty)

lemma replace_no_match:
  "\<not> prefix (tokenText t) (ch # X) \<Longrightarrow>
   stringsReplace (ch # X) (tokenText t) v n = ch # stringsReplace X (tokenText t) v n"
  by (simp add: stringsReplace.simps[of "ch # X"] replace_zero tokenText_nonempty)

lemma other_token_no_prefix:
  "u \<noteq> t \<Longrightarrow> \<not> prefix (tokenText t) (tokenText u @ X)"
  by (cases t; cases u) (simp_all add: tokenText_def)

lemma substField_zero: "substField t v 0 T = T"
  by (induction T rule: render.induct) auto

lemma rpm_fill:
  "l < 0 \<Longrightarrow> m < 0 \<Longrightarrow> n < 0 \<Longrightarrow>
   render (substField Architecture (val Architecture) n
          (substField ToolsRelease (val ToolsRelease) m
          (substField ToolsVersion (val ToolsVersion) l T))) = fill val T"
proof (induction T arbitrary: l m n rule: render.induct)
  case 1
  show ?case by simp
next
  case (2 s segs)
  then show ?case by simp
next
  case (3 u segs)
  from "3.prems" "3.IH"[of "l - 1" m n] "3.IH"[of l "m - 1" n] "3.IH"[of l m "n - 1"] "3.IH"[of l m n]
  show ?case by (cases u) auto
qed

lemma occursIn_iff: "occursIn x s \<longleftrightarrow> (\<exists>p q. s = p @ x @ q)"
proof (induction s)
  case Nil
  then show ?case by auto
next
  case (Cons ch s)
  show ?case
  proof
    assume "occursIn x (ch # s)"
    then consider "prefix x (ch # s)" | "occursIn x s" by auto
    then show "\<exists>p q. ch # s = p @ x @ q"
    proof cases
      case 1
      then obtain q where "ch # s = x @ q" by (auto simp: prefix_def)
      then have "ch # s = [] @ x @ q" by simp
      then show ?thesis by blast
    next
      case 2
      with Cons.IH obtain p q where "s = p @ x @ q" by auto
      then have "ch # s = (ch # p) @ x @ q" by simp
      then show ?thesis by blast
    qed
  next
    assume "\<exists>p q. ch # s = p @ x @ q"
    then obtain p q where pq: "ch # s = p @ x @ q" by blast
    show "occursIn x (ch # s)"
    proof (cases p)
      case Nil
      with pq have "prefix x (ch # s)" by (simp add: prefix_def)
      then show ?thesis by simp
    next
      case (Cons a p')
      with pq have "s = p' @ x @ q" by simp
      with Cons.IH show ?thesis by auto
    qed
  qed
qed

lemma plainValue_body: "plainValue v \<Longrightarrow> \<not> occursIn v (tokenBody t)"
  by (cases t) (simp_all add: plainValue_def)

lemma plainValue_nonempty: "plainValue v \<Longrightarrow> v \<noteq> []"
  by (auto simp: plainValue_def)

lemma replace_noStart:
  "noStart (tokenText t) s R \<Longrightarrow>
   stringsReplace (s @ R) (tokenText t) v n = s @ stringsReplace R (tokenText t) v n"
  by (induction s) (simp_all add: replace_no_match)

lemma tokenText_Cons: "tokenText u = CHR ''@'' # tl (tokenText u)"
  by (simp add: tokenText_def)

lemma replace_render_exact:
  "cleanFor t T \<Longrightarrow>
   stringsReplace (render T) (tokenText t) v n = render (substField t v n T)"
proof (induction T arbitrary: n rule: render.induct)
  case 1
  show ?case by (simp add: replace_nil)
next
  case (2 s segs)
  then show ?case by (simp add: replace_noStart)
next
  case (3 u segs)
  from "3.prems" have tail: "noStart (tokenText t) (tl (tokenText u)) (render segs)"
    and rest: "cleanFor t segs" by simp_all
  show ?case
  proof (cases "n \<noteq> 0 \<and> u = t")
    case True
    with "3.IH"[OF rest, of "n - 1"] show ?thesis by (simp add: replace_match)
  next
    case False
    show ?thesis
    proof (cases "n = 0")
      case True
      then show ?thesis by (simp add: replace_zero substField_zero)
    next
      case n: False
      with False have ne: "u \<noteq> t" by simp
      have "\<not> prefix (tokenText t) (CHR ''@'' # (tl (tokenText u) @ render segs))"
        using other_token_no_prefix[OF ne, of "render segs"] tokenText_Cons[of u]
        by (metis append_Cons)
      then have "stringsReplace (CHR ''@'' # (tl (tokenText u) @ render segs)) (tokenText t) v n
          = CHR ''@'' # stringsReplace (tl (tokenText u) @ render segs) (tokenText t) v n"
        by (rule replace_no_match)
      also have "\<dots> = CHR ''@'' # tl (tokenText u) @ stringsReplace (render segs) (tokenText t) v n"
        by (simp add: replace_noStart[OF tail])
      finally have "stringsReplace (tokenText u @ render segs) (tokenText t) v n
          = tokenText u @ stringsReplace (render segs) (tokenText t) v n"
        using tokenText_Cons[of u] by (metis append_Cons)
      with ne "3.IH"[OF rest, of n] show ?thesis by simp
    qed
  qed
qed

lemma suffix_token_last:
  "suffix m (tokenText t) \<Longrightarrow> m \<noteq> [] \<Longrightarrow> last m = CHR ''@''"
  by (auto simp: suffix_def tokenText_def) (metis last_appendR last_snoc append_Cons append_assoc)

lemma value_not_in_suffix:
  assumes pv: "plainValue v" and suf: "suffix (v @ m') (tokenText t)"
  shows False
proof -
  from suf obtain k where k: "tokenText t = k @ v @ m'" by (auto simp: suffix_def)
  from pv have v: "v \<noteq> []" "CHR ''@'' \<notin> set v" by (auto simp: plainValue_def)
  show False
  proof (cases k)
    case Nil
    with k v(1) have "hd v = CHR ''@''" by (cases v) (auto simp: tokenText_def)
    with v show False by (cases v) auto
  next
    case (Cons a k')
    with k have body: "tokenBody t @ ''@'' = k' @ v @ m'" by (auto simp add: tokenText_def)
    show False
    proof (cases m' rule: rev_cases)
      case Nil
      with body v(1) have "last v = CHR ''@''"
        by (metis append_Nil2 last_appendR last_snoc)
      with v show False using last_in_set by metis
    next
      case (snoc m'' x)
      with body have "tokenBody t @ ''@'' = (k' @ v @ m'') @ [x]" by simp
      then have "tokenBody t = k' @ v @ m''" by (metis butlast_snoc)
      then have "occursIn v (tokenBody t)" by (auto simp: occursIn_iff)
      with plainValue_body[OF pv] show False by simp
    qed
  qed
qed

lemma prefix_after_subst:
  "plainValue v \<Longrightarrow> suffix m (tokenText t) \<Longrightarrow>
   prefix m (render (substField u v n T)) \<Longrightarrow> prefix m (render T)"
proof (induction T arbitrary: m n rule: render.induct)
  case 1
  then show ?case by simp
next
  case (2 s segs)
  from "2.prems"(3) have "prefix m (s @ render (substField u v n segs))" by simp
  then consider "prefix m s" | m' where "m = s @ m'" "prefix m' (render (substField u v n segs))"
    by (auto simp: prefix_append)
  then show ?case
  proof cases
    case 1
    then show ?thesis by (simp add: prefix_append)
  next
    case 2
    from "2.prems"(2) 2(1) have "suffix m' (tokenText t)" by (auto dest: suffix_appendD)
    from "2.IH"[OF "2.prems"(1) this 2(2)] 2(1) show ?thesis by simp
  qed
next
  case (3 w segs)
  show ?case
  proof (cases "n \<noteq> 0 \<and> w = u")
    case True
    with "3.prems"(3) have "prefix m (v @ render (substField u v (n - 1) segs))" by simp
    then consider "prefix m v" | m' where "m = v @ m'"
      by (auto simp: prefix_append)
    then show ?thesis
    proof cases
      case 1
      show ?thesis
      proof (cases "m = []")
        case True
        then show ?thesis by simp
      next
        case False
        from suffix_token_last[OF "3.prems"(2) False] False have "CHR ''@'' \<in> set m"
          using last_in_set by metis
        with 1 have "CHR ''@'' \<in> set v" using set_mono_prefix by blast
        with "3.prems"(1) show ?thesis by (simp add: plainValue_def)
      qed
    next
      case 2
      with "3.prems"(2) value_not_in_suffix[OF "3.prems"(1), of m' t] show ?thesis by simp
    qed
  next
    case False
    with "3.prems"(3) have "prefix m (tokenText w @ render (substField u v n segs))" by auto
    then consider "prefix m (tokenText w)"
      | m' where "m = tokenText w @ m'" "prefix m' (render (substField u v n segs))"
      by (auto simp: prefix_append)
    then show ?thesis
    proof cases
      case 1
      then show ?thesis by (simp add: prefix_append)
    next
      case 2
      from "3.prems"(2) 2(1) have "suffix m' (tokenText t)" by (auto dest: suffix_appendD)
      from "3.IH"[OF "3.prems"(1) this 2(2)] 2(1) show ?thesis by simp
    qed
  qed
qed

lemma noStart_after_subst:
  assumes pv: "plainValue v"
  shows "noStart (tokenText t) s (render T) \<Longrightarrow>
         noStart (tokenText t) s (render (substField u v n T))"
proof (induction s)
  case Nil
  show ?case by simp
next
  case (Cons ch s)
  from Cons.prems have here: "\<not> prefix (tokenText t) ((ch # s) @ render T)"
    and later: "noStart (tokenText t) s (render T)" by simp_all
  have "\<not> prefix (tokenText t) ((ch # s) @ render (substField u v n T))"
  proof
    assume a: "prefix (tokenText t) ((ch # s) @ render (substField u v n T))"
    then consider "prefix (tokenText t) (ch # s)"
      | m' where "tokenText t = (ch # s) @ m'" "prefix m' (render (substField u v n T))"
      using a[unfolded prefix_append] by blast
    then show False
    proof cases
      case 1
      then have "prefix (tokenText t) ((ch # s) @ render T)" by (rule prefix_prefix)
      with here show False by simp
    next
      case 2
      from 2(1) have "suffix m' (tokenText t)" by (auto simp: suffix_def)
      from prefix_after_subst[OF pv this 2(2)] have "prefix m' (render T)" .
      then have "prefix ((ch # s) @ m') ((ch # s) @ render T)" by (simp only: same_prefix_prefix)
      with 2(1) here show False by simp
    qed
  qed
  with Cons.IH[OF later] show ?case by simp
qed

lemma noStart_value:
  "CHR ''@'' \<notin> set v \<Longrightarrow> noStart (tokenText t) v R"
  by (induction v) (auto simp: tokenText_def)

lemma cleanFor_substField:
  "plainValue v \<Longrightarrow> cleanFor t T \<Longrightarrow> cleanFor t (substField u v n T)"
proof (induction T arbitrary: n rule: render.induct)
  case 1
  show ?case by simp
next
  case (2 s segs)
  then show ?case by (simp add: noStart_after_subst)
next
  case (3 w segs)
  then show ?case by (auto simp: noStart_after_subst noStart_value plainValue_def)
qed

lemma fieldCount_substField_le: "fieldCount t (substField u v n T) \<le> fieldCount t T"
  by (induction T arbitrary: n rule: render.induct) (auto simp: le_SucI)

lemma fieldCount_substField_all: "n < 0 \<Longrightarrow> fieldCount t (substField t v n T) = 0"
  by (induction T arbitrary: n rule: render.induct) auto

lemma fieldCount_substField_one:
  "n \<noteq> 0 \<Longrightarrow> fieldCount t T \<le> 1 \<Longrightarrow> fieldCount t (substField t v n T) = 0"
proof (induction T arbitrary: n rule: render.induct)
  case 1
  show ?case by simp
next
  case (2 s segs)
  then show ?case by simp
next
  case (3 w segs)
  show ?case
  proof (cases "w = t")
    case True
    with "3.prems" have "fieldCount t segs = 0" by simp
    with fieldCount_substField_le[of t t v "n - 1" segs] True "3.prems" show ?thesis by simp
  next
    case False
    with "3.prems" "3.IH"[of n] show ?thesis by simp
  qed
qed

lemma noStart_occursIn:
  "noStart tok s R \<Longrightarrow> \<not> occursIn tok R \<Longrightarrow> \<not> occursIn tok (s @ R)"
  by (induction s) auto

lemma no_field_no_token:
  "cleanFor t T \<Longrightarrow> fieldCount t T = 0 \<Longrightarrow> \<not> occursIn (tokenText t) (render T)"
proof (induction T rule: render.induct)
  case 1
  show ?case by (simp add: tokenText_nonempty)
next
  case (2 s segs)
  then show ?case by (simp add: noStart_occursIn)
next
  case (3 w segs)
  from "3.prems" have ne: "w \<noteq> t" and cnt: "fieldCount t segs = 0"
    by (auto split: if_splits)
  from "3.prems" have tail: "noStart (tokenText t) (tl (tokenText w)) (render segs)"
    and rest: "cleanFor t segs" by simp_all
  from "3.IH"[OF rest cnt] noStart_occursIn[OF tail]
  have "\<not> occursIn (tokenText t) (tl (tokenText w) @ render segs)" by simp
  moreover have "\<not> prefix (tokenText t) (CHR ''@'' # (tl (tokenText w) @ render segs))"
    using other_token_no_prefix[OF ne, of "render segs"] tokenText_Cons[of w]
    by (metis append_Cons)
  ultimately have "\<not> occursIn (tokenText t) (CHR ''@'' # (tl (tokenText w) @ render segs))"
    by simp
  then show ?case using tokenText_Cons[of w] by (metis append_Cons render.simps(3))
qed


lemma deb_fill:
  "l < 0 \<Longrightarrow> fieldCount Architecture T \<le> (if n = 0 then 0 else 1) \<Longrightarrow>
   val ToolsRelease = tokenText ToolsRelease \<Longrightarrow>
   render (substField Architecture (val Architecture) n
          (substField ToolsVersion (val ToolsVersion) l T)) = fill val T"
proof (induction T arbitrary: l n rule: render.induct)
  case 1
  show ?case by simp
next
  case (2 s segs)
  then show ?case by simp
next
  case (3 u segs)
  show ?case
  proof (cases u)
    case ToolsVersion
    with "3.prems" "3.IH"[of "l - 1" n] show ?thesis by (auto split: if_splits)
  next
    case ToolsRelease
    with "3.prems" "3.IH"[of l n] show ?thesis by (auto split: if_splits)
  next
    case Architecture
    with "3.prems" have "n \<noteq> 0" "fieldCount Architecture segs = 0"
      by (auto split: if_splits)
    with Architecture "3.prems" "3.IH"[of l "n - 1"] show ?thesis by (auto split: if_splits)
  qed
qed

lemma tokenText_simps:
  "''@TOOLS_VERSION@'' = tokenText ToolsVersion"
  "''@TOOLS_RELEASE@'' = tokenText ToolsRelease"
  "''@ARCHITECTURE@'' = tokenText Architecture"
  by (simp_all add: tokenText_def)

lemma createSpecFile_writes:
  assumes "files w (rpmTemplatePath c) = Some tmpl" and "rpmTemplatePath c \<noteq> specFile"
    and "createSpecFile c pf v w = (Inr (), w')"
  shows "files w' specFile =
     Some (stringsReplace
            (stringsReplace
              (stringsReplace tmpl (tokenText ToolsVersion) (vStringWithoutPre c v) (- 1))
              (tokenText ToolsRelease) (vRPMRelease c v) (- 1))
            (tokenText Architecture) (Arch pf) (- 1))"
  using assms
  by (auto simp: createSpecFile_def Let_def io_then_def io_bind_def emit_def check_def
        checked_def getFile_def putFile_def logFatal_def io_return_def tokenText_simps
      split: option.splits sum.splits prod.splits if_splits)

lemma createControlFile_writes:
  assumes "files w (debTemplatePath c) = Some tmpl" and "debTemplatePath c \<noteq> controlFile"
    and "GetCurrent c = Inr v"
    and "createControlFile c pf w = (Inr (), w')"
  shows "files w' controlFile =
     Some (stringsReplace
            (stringsReplace tmpl (tokenText ToolsVersion) (vString c v) (- 1))
            (tokenText Architecture) (DebianArch c pf) 1)"
  using assms
  by (auto simp: createControlFile_def Let_def io_then_def io_bind_def emit_def check_def
        checked_def getFile_def putFile_def logFatal_def io_return_def tokenText_simps
      split: option.splits sum.splits prod.splits if_splits)

text \<open>
  Why the templates and the values are restricted. \<^verbatim>\<open>buildDeb\<close> replaces the first
  \<^verbatim>\<open>@ARCHITECTURE@\<close> only; where two occurrences of tokens overlap,
  \<^verbatim>\<open>strings.Replace\<close> takes the one it meets first; and a value that is a part of the
  name of a token can complete a token that the next replacement then takes.
\<close>

lemma control_file_second_architecture:
  "files (snd (createControlFile exCollab exPlatform debTwoArchWorld)) controlFile
     = Some ''Architecture: amd64 Arch: @ARCHITECTURE@''"
  by (simp add: meta_defs ex_defs debTwoArchWorld_def stringsReplace.simps)

lemma spec_file_overlapping_tokens:
  "files (snd (createSpecFile exCollab exPlatform exVersion rpmOverlapWorld)) specFile
     = Some ''@TOOLS_RELEASE1ARCHITECTURE@''"
  by (simp add: meta_defs ex_defs rpmOverlapWorld_def stringsReplace.simps tokenText_def)

lemma spec_file_value_completes_token:
  "exactFields [Lit ''@TOOLS'', Field ToolsVersion, Lit ''RELEASE@'']
   \<and> files (snd (createSpecFile underscoreCollab exPlatform exVersion rpmValueWorld)) specFile
       = Some ''1''
   \<and> fill (rpmValue underscoreCollab exPlatform exVersion)
        [Lit ''@TOOLS'', Field ToolsVersion, Lit ''RELEASE@''] = ''@TOOLS_RELEASE@''"
  by (simp add: meta_defs ex_defs underscoreCollab_def rpmValueWorld_def stringsReplace.simps
        tokenText_def exactFields_def rpmValue_def)

subsection \<open>Claims\<close>

text \<open>
  C1. When the CI collaborator returns a task list whose kept sign tasks (not patch tasks,
  display name "sign") are more or fewer than \<^verbatim>\<open>platform.Count()\<close>, \<^verbatim>\<open>uploadRelease\<close>
  ends in a fatal error and has called \<^verbatim>\<open>UploadFile\<close> not once: the uploads of the
  trace are those it started with. When moreover every kept task has a known variant, the
  fatal message is the one of the count check.
\<close>

theorem sign_count_mismatch_is_fatal:
  assumes tasks: "GetTasksForRevision c (Commit v) = Inr tasks"
    and mismatch: "length (filter keptTask tasks) \<noteq> Count c"
  shows "(\<exists>msg. fst (uploadRelease c v w) = Inl (Fatal msg))
       \<and> uploadsOf (trace (snd (uploadRelease c v w))) = uploadsOf (trace w)
       \<and> ((\<forall>t\<in>set tasks. keptTask t \<longrightarrow> GetByVariant c (Variant t) \<noteq> None) \<longrightarrow>
            fst (uploadRelease c v w)
              = Inl (Fatal (signCountMsg (length (filter keptTask tasks)) (Count c))))"
proof (cases "\<forall>t\<in>set tasks. keptTask t \<longrightarrow> GetByVariant c (Variant t) \<noteq> None")
  case True
  from filter_known[OF True, of "[]" "patchNotice c w"]
  have "forRange tasks (filterSignTask c) [] (patchNotice c w)
          = (Inr (filter keptTask tasks), patchNotice c w)" by simp
  from uploadRelease_known[OF tasks this] mismatch
  have "uploadRelease c v w
          = (Inl (Fatal (signCountMsg (length (filter keptTask tasks)) (Count c))), patchNotice c w)"
    by (simp add: io_then_def io_bind_def logFatal_def)
  then show ?thesis by (simp add: uploadsOf_patchNotice)
next
  case False
  then have "\<exists>t\<in>set tasks. keptTask t \<and> GetByVariant c (Variant t) = None" by auto
  from filter_unknown[OF this, of "[]" "patchNotice c w"] obtain t :: task where
    "forRange tasks (filterSignTask c) [] (patchNotice c w)
       = (Inl (Fatal (unknownVariantMsg (Variant t))), patchNotice c w)" by blast
  from uploadRelease_unknown[OF tasks this]
  have "uploadRelease c v w = (Inl (Fatal (unknownVariantMsg (Variant t))), patchNotice c w)" .
  with False show ?thesis
    by (auto simp add: uploadsOf_patchNotice)
qed

text \<open>The matrix has two platforms and one sign task is present.\<close>

theorem sign_count_mismatch_is_fatal_witness:
  "GetTasksForRevision (exCollab\<lparr>Count := 2\<rparr>) (Commit exVersion) = Inr [exTask]
   \<and> length (filter keptTask [exTask]) \<noteq> Count (exCollab\<lparr>Count := 2\<rparr>)
   \<and> fst (uploadRelease (exCollab\<lparr>Count := 2\<rparr>) exVersion exWorld)
       = Inl (Fatal ''found 1 sign tasks, but expected 2 release platforms'')
   \<and> uploadsOf (trace (snd (uploadRelease (exCollab\<lparr>Count := 2\<rparr>) exVersion exWorld))) = []"
proof -
  have h1: "GetTasksForRevision (exCollab\<lparr>Count := 2\<rparr>) (Commit exVersion) = Inr [exTask]"
    by (simp add: ex_defs)
  have h2: "length (filter keptTask [exTask]) \<noteq> Count (exCollab\<lparr>Count := 2\<rparr>)"
    by (simp add: ex_defs keptTask_def)
  have h3: "\<forall>t\<in>set [exTask]. keptTask t \<longrightarrow> GetByVariant (exCollab\<lparr>Count := 2\<rparr>) (Variant t) \<noteq> None"
    by (simp add: ex_defs)
  have msg: "signCountMsg (length (filter keptTask [exTask])) (Count (exCollab\<lparr>Count := 2\<rparr>))
               = ''found 1 sign tasks, but expected 2 release platforms''"
    by (simp add: ex_defs keptTask_def signCountMsg_def showInt_def digits.simps digitChar_def)
  have w: "uploadsOf (trace exWorld) = []"
    by (simp add: exWorld_def)
  from sign_count_mismatch_is_fatal[OF h1 h2, of exWorld] h3 msg w h1 h2
  show ?thesis by simp
qed

text \<open>
  C2, as stated, fails: the uploads follow the sign tasks and the extensions of the URLs of
  their artifacts, and \<^verbatim>\<open>uploadRelease\<close> compares counts only. Here the run returns
  normally for a stable version; the second platform of the matrix gets no upload, and no
  file is uploaded under the extension \<^verbatim>\<open>.tgz\<close> that both platforms have.
\<close>

theorem platform_and_extension_without_upload:
  "fst (uploadRelease twoCollab exVersion exWorld) = Inr ()
   \<and> vIsStable twoCollab exVersion
   \<and> Count twoCollab = 2
   \<and> GetByVariant twoCollab ''v1'' = Some exPlatform
   \<and> GetByVariant twoCollab ''v2'' = Some secondPlatform
   \<and> ArtifactExtensions twoCollab exPlatform = [''.tgz'']
   \<and> ArtifactExtensions twoCollab secondPlatform = [''.tgz'']
   \<and> uploadsOf (trace (snd (uploadRelease twoCollab exVersion exWorld)))
       = [''mongodb-database-tools-p-a-unstable.gz'', ''mongodb-database-tools-p-a-1.gz'',
          ''mongodb-database-tools-p-a-latest-stable.gz'',
          ''mongodb-database-tools-p-a-unstable.gz'', ''mongodb-database-tools-p-a-1.gz'',
          ''mongodb-database-tools-p-a-latest-stable.gz'', ''release.json'']
   \<and> unstableFile exPlatform ''.tgz''
       \<notin> set (uploadsOf (trace (snd (uploadRelease twoCollab exVersion exWorld))))
   \<and> unstableFile secondPlatform ''.tgz''
       \<notin> set (uploadsOf (trace (snd (uploadRelease twoCollab exVersion exWorld))))"
  by (simp add: twoCollab_def secondPlatform_def ex_defs run_defs)

text \<open>
  C2, amended. In a run of \<^verbatim>\<open>uploadRelease\<close> that returns normally, every kept sign task
  has as many artifacts as its platform has artifact extensions, and the uploads of the run
  are, task by task and artifact by artifact, exactly the names of \<open>publishedNames\<close> for the
  platform of the task and the extension of the URL of the artifact: three (unstable,
  stable, latest-stable) when the version is stable, one (unstable) when it is not; the feed
  follows for a stable version. The three names differ from each other unless the version
  prints as "unstable" or "latest-stable".
\<close>

theorem stable_uploads_three_names:
  assumes run: "fst (uploadRelease c v w) = Inr ()"
    and tasks: "GetTasksForRevision c (Commit v) = Inr tasks"
  shows "(\<forall>t\<in>set (filter keptTask tasks). \<exists>pf arts.
            GetByVariant c (Variant t) = Some pf
          \<and> GetArtifactsForTask c (TaskID t) = Inr arts
          \<and> length arts = length (ArtifactExtensions c pf)
          \<and> taskUploads c v t = concat (map (\<lambda>a. publishedNames c v pf (pathExt (URL a))) arts))
       \<and> uploadsOf (trace (snd (uploadRelease c v w)))
           = uploadsOf (trace w) @ concat (map (taskUploads c v) (filter keptTask tasks))
             @ (if vIsStable c v then [feedFilename] else [])
       \<and> length (publishedNames c v pf ext) = (if vIsStable c v then 3 else 1)
       \<and> (vString c v \<noteq> ''unstable'' \<and> vString c v \<noteq> ''latest-stable'' \<longrightarrow>
            distinct (publishedNames c v pf ext))"
proof -
  let ?K = "\<lambda>dls. if vIsStable c v then uploadFeed c v dls else io_return ()"
  obtain r w1 where all: "uploadAll c v (patchNotice c w) = (r, w1)"
    by (cases "uploadAll c v (patchNotice c w)")
  with run obtain dls where r: "r = Inr dls"
    by (cases r) (auto simp: uploadRelease_uploadAll io_bind_def)
  with all have rel: "uploadRelease c v w = ?K dls w1"
    by (simp add: uploadRelease_uploadAll io_bind_Inr)
  from all r tasks obtain signTasks w0 where
    f: "forRange tasks (filterSignTask c) [] (patchNotice c w) = (Inr signTasks, w0)"
    and loop: "forRange signTasks (uploadTask c v) [] w0 = (Inr dls, w1)"
    by (auto simp: uploadAll_def io_bind_def io_then_def checked_def io_return_def check_def
          logFatal_def split: prod.splits sum.splits if_splits option.splits)
  from filter_result[OF f] have st: "signTasks = filter keptTask tasks" "w0 = patchNotice c w"
    by simp_all
  from forRange_uploadTask_uploads[OF loop] st
  have ups: "uploadsOf (trace w1)
               = uploadsOf (trace w) @ concat (map (taskUploads c v) (filter keptTask tasks))"
    and each: "\<forall>t\<in>set (filter keptTask tasks). \<exists>pf arts.
            GetByVariant c (Variant t) = Some pf
          \<and> GetArtifactsForTask c (TaskID t) = Inr arts
          \<and> length arts = length (ArtifactExtensions c pf)"
    by (simp_all add: uploadsOf_patchNotice)
  from each have each': "\<forall>t\<in>set (filter keptTask tasks). \<exists>pf arts.
            GetByVariant c (Variant t) = Some pf
          \<and> GetArtifactsForTask c (TaskID t) = Inr arts
          \<and> length arts = length (ArtifactExtensions c pf)
          \<and> taskUploads c v t = concat (map (\<lambda>a. publishedNames c v pf (pathExt (URL a))) arts)"
    by (fastforce simp: taskUploads_def)
  have final: "uploadsOf (trace (snd (uploadRelease c v w)))
           = uploadsOf (trace w1) @ (if vIsStable c v then [feedFilename] else [])"
  proof (cases "vIsStable c v")
    case True
    with rel run uploadFeed_cases[of c v dls w1] show ?thesis by auto
  next
    case False
    with rel show ?thesis by (simp add: io_return_def)
  qed
  have "length (publishedNames c v pf ext) = (if vIsStable c v then 3 else 1)"
    by (simp add: publishedNames_def)
  with each' final ups show ?thesis
    by (auto intro: publishedNames_distinct)
qed

theorem stable_uploads_three_names_witness:
  "fst (uploadRelease exCollab exVersion exWorld) = Inr ()
   \<and> GetTasksForRevision exCollab (Commit exVersion) = Inr [exTask]
   \<and> uploadsOf (trace (snd (uploadRelease exCollab exVersion exWorld)))
       = [''mongodb-database-tools-p-a-unstable.tgz'', ''mongodb-database-tools-p-a-1.tgz'',
          ''mongodb-database-tools-p-a-latest-stable.tgz'', ''release.json'']"
proof -
  have run: "fst (uploadRelease exCollab exVersion exWorld) = Inr ()"
    by (simp add: ex_defs run_defs)
  have tasks: "GetTasksForRevision exCollab (Commit exVersion) = Inr [exTask]"
    by (simp add: ex_defs)
  have names: "concat (map (taskUploads exCollab exVersion) (filter keptTask [exTask]))
      = [''mongodb-database-tools-p-a-unstable.tgz'', ''mongodb-database-tools-p-a-1.tgz'',
         ''mongodb-database-tools-p-a-latest-stable.tgz'']"
    by (simp add: taskUploads_def publishedNames_def keptTask_def ex_defs run_defs)
  have more: "vIsStable exCollab exVersion" "uploadsOf (trace exWorld) = []"
      "feedFilename = ''release.json''"
    by (simp_all add: ex_defs feedFilename_def)
  from stable_uploads_three_names[OF run tasks, of exPlatform "[]"] names more run tasks
  show ?thesis by simp
qed

text \<open>
  C3, on the code: the upload of the first file fails, and \<^verbatim>\<open>uploadRelease\<close> goes on to
  upload the two other files and the feed, and returns normally.
\<close>

theorem failed_upload_does_not_abort:
  "fst (uploadRelease failCollab exVersion exWorld) = Inr ()
   \<and> uploadsOf (trace (snd (uploadRelease failCollab exVersion exWorld)))
       = [''mongodb-database-tools-p-a-unstable.tgz'', ''mongodb-database-tools-p-a-1.tgz'',
          ''mongodb-database-tools-p-a-latest-stable.tgz'', ''release.json'']
   \<and> Upload ''downloads.mongodb.org'' ''/tools/db'' ''mongodb-database-tools-p-a-unstable.tgz''
        (Some ''upload failed'') \<in> set (trace (snd (uploadRelease failCollab exVersion exWorld)))"
  by (simp add: failCollab_def ex_defs run_defs)

text \<open>
  C4, as stated, fails on \<^verbatim>\<open>buildDeb\<close>: the control file is written with the
  \<^verbatim>\<open>@TOOLS_RELEASE@\<close> of its template still in it, since \<^verbatim>\<open>buildDeb\<close> replaces
  \<^verbatim>\<open>@TOOLS_VERSION@\<close> and \<^verbatim>\<open>@ARCHITECTURE@\<close> only.
\<close>

theorem control_file_keeps_release_token:
  "fst (createControlFile exCollab exPlatform debReleaseWorld) = Inr ()
   \<and> files (snd (createControlFile exCollab exPlatform debReleaseWorld)) controlFile
       = Some ''Version: 1 Release: @TOOLS_RELEASE@''"
  by (simp add: meta_defs ex_defs debReleaseWorld_def stringsReplace.simps)

text \<open>
  C4, amended. Take a template whose fields are exact, and values that are plain. Then
  \<^verbatim>\<open>buildRPM\<close> writes the spec template with every \<^verbatim>\<open>@TOOLS_VERSION@\<close>,
  \<^verbatim>\<open>@TOOLS_RELEASE@\<close> and \<^verbatim>\<open>@ARCHITECTURE@\<close> replaced by \<^verbatim>\<open>v.StringWithoutPre()\<close>,
  \<^verbatim>\<open>v.RPMRelease()\<close> and \<^verbatim>\<open>pf.Arch\<close>, and none of the three tokens occurs in the output.
  \<^verbatim>\<open>buildDeb\<close> writes a control template that has at most one architecture field with
  every \<^verbatim>\<open>@TOOLS_VERSION@\<close> replaced by \<^verbatim>\<open>v.String()\<close> and \<^verbatim>\<open>@ARCHITECTURE@\<close> by
  \<^verbatim>\<open>pf.DebianArch()\<close>, and neither of these two tokens occurs in the output; a
  \<^verbatim>\<open>@TOOLS_RELEASE@\<close> stays as it is.
\<close>

theorem metadata_fields_are_filled:
  assumes rpmT: "exactFields T"
    and ctl: "exactFields U" "fieldCount Architecture U \<le> 1"
    and rpmv: "\<forall>t. plainValue (rpmValue c pf v t)"
    and debv: "plainValue (vString c dv)" "plainValue (DebianArch c pf)"
  shows "(files w (rpmTemplatePath c) = Some (render T) \<and> rpmTemplatePath c \<noteq> specFile
          \<and> createSpecFile c pf v w = (Inr (), w')
          \<longrightarrow> files w' specFile = Some (fill (rpmValue c pf v) T)
              \<and> (\<forall>t. \<not> occursIn (tokenText t) (fill (rpmValue c pf v) T)))
       \<and> (files w (debTemplatePath c) = Some (render U) \<and> debTemplatePath c \<noteq> controlFile
          \<and> GetCurrent c = Inr dv \<and> createControlFile c pf w = (Inr (), w'')
          \<longrightarrow> files w'' controlFile = Some (fill (debValue c pf dv) U)
              \<and> \<not> occursIn (tokenText ToolsVersion) (fill (debValue c pf dv) U)
              \<and> \<not> occursIn (tokenText Architecture) (fill (debValue c pf dv) U))"
proof (intro conjI impI)
  assume a: "files w (rpmTemplatePath c) = Some (render T) \<and> rpmTemplatePath c \<noteq> specFile
          \<and> createSpecFile c pf v w = (Inr (), w')"
  from rpmv have vals: "plainValue (vStringWithoutPre c v)"
      "plainValue (vRPMRelease c v)" "plainValue (Arch pf)"
    by (auto simp: rpmValue_def dest: spec[of _ ToolsVersion]
        spec[of _ ToolsRelease] spec[of _ Architecture])
  let ?T1 = "substField ToolsVersion (vStringWithoutPre c v) (- 1) T"
  let ?T2 = "substField ToolsRelease (vRPMRelease c v) (- 1) ?T1"
  let ?T3 = "substField Architecture (Arch pf) (- 1) ?T2"
  from rpmT have c0: "cleanFor t T" for t by (cases t) (simp_all add: exactFields_def)
  have c1: "cleanFor t ?T1" for t by (intro cleanFor_substField vals c0)
  have c2: "cleanFor t ?T2" for t by (intro cleanFor_substField vals c1)
  have c3: "cleanFor t ?T3" for t by (intro cleanFor_substField vals c2)
  have fillT: "render ?T3 = fill (rpmValue c pf v) T"
    using rpm_fill[of "- 1" "- 1" "- 1" "rpmValue c pf v" T] by (simp add: rpmValue_def)
  from a createSpecFile_writes[of w c "render T" pf v w']
  have "files w' specFile =
     Some (stringsReplace
            (stringsReplace
              (stringsReplace (render T) (tokenText ToolsVersion) (vStringWithoutPre c v) (- 1))
              (tokenText ToolsRelease) (vRPMRelease c v) (- 1))
            (tokenText Architecture) (Arch pf) (- 1))" by simp
  also have "\<dots> = Some (render ?T3)"
    by (simp add: replace_render_exact[OF c0] replace_render_exact[OF c1] replace_render_exact[OF c2])
  finally show "files w' specFile = Some (fill (rpmValue c pf v) T)" by (simp add: fillT)
  have cnt: "fieldCount t ?T3 = 0" for t
  proof (cases t)
    case ToolsVersion
    have "fieldCount ToolsVersion ?T3 \<le> fieldCount ToolsVersion ?T2"
      by (rule fieldCount_substField_le)
    also have "\<dots> \<le> fieldCount ToolsVersion ?T1" by (rule fieldCount_substField_le)
    also have "\<dots> = 0" by (simp add: fieldCount_substField_all)
    finally show ?thesis using ToolsVersion by simp
  next
    case ToolsRelease
    have "fieldCount ToolsRelease ?T3 \<le> fieldCount ToolsRelease ?T2"
      by (rule fieldCount_substField_le)
    also have "\<dots> = 0" by (simp add: fieldCount_substField_all)
    finally show ?thesis using ToolsRelease by simp
  next
    case Architecture
    then show ?thesis by (simp add: fieldCount_substField_all)
  qed
  show "\<forall>t. \<not> occursIn (tokenText t) (fill (rpmValue c pf v) T)"
    using no_field_no_token[OF c3 cnt] by (simp add: fillT)
next
  assume a: "files w (debTemplatePath c) = Some (render U) \<and> debTemplatePath c \<noteq> controlFile
          \<and> GetCurrent c = Inr dv \<and> createControlFile c pf w = (Inr (), w'')"
  let ?U1 = "substField ToolsVersion (vString c dv) (- 1) U"
  let ?U2 = "substField Architecture (DebianArch c pf) 1 ?U1"
  from ctl(1) have c0: "cleanFor t U" for t by (cases t) (simp_all add: exactFields_def)
  have c1: "cleanFor t ?U1" for t by (intro cleanFor_substField debv c0)
  have c2: "cleanFor t ?U2" for t by (intro cleanFor_substField debv c1)
  have fillU: "render ?U2 = fill (debValue c pf dv) U"
    using deb_fill[of "- 1" U 1 "debValue c pf dv"] ctl(2)
    by (simp add: debValue_def tokenText_def)
  from a createControlFile_writes[of w c "render U" dv pf w'']
  have "files w'' controlFile =
     Some (stringsReplace
            (stringsReplace (render U) (tokenText ToolsVersion) (vString c dv) (- 1))
            (tokenText Architecture) (DebianArch c pf) 1)" by simp
  also have "\<dots> = Some (render ?U2)"
    by (simp add: replace_render_exact[OF c0] replace_render_exact[OF c1])
  finally show "files w'' controlFile = Some (fill (debValue c pf dv) U)" by (simp add: fillU)
  have "fieldCount ToolsVersion ?U2 \<le> fieldCount ToolsVersion ?U1"
    by (rule fieldCount_substField_le)
  also have "\<dots> = 0" by (simp add: fieldCount_substField_all)
  finally have v0: "fieldCount ToolsVersion ?U2 = 0" by simp
  have "fieldCount Architecture ?U1 \<le> fieldCount Architecture U"
    by (rule fieldCount_substField_le)
  with ctl(2) have "fieldCount Architecture ?U1 \<le> 1" by simp
  then have a0: "fieldCount Architecture ?U2 = 0"
    by (intro fieldCount_substField_one) simp_all
  from no_field_no_token[OF c2 v0]
  show "\<not> occursIn (tokenText ToolsVersion) (fill (debValue c pf dv) U)" by (simp add: fillU)
  from no_field_no_token[OF c2 a0]
  show "\<not> occursIn (tokenText Architecture) (fill (debValue c pf dv) U)" by (simp add: fillU)
qed

theorem metadata_fields_are_filled_witness:
  "exactFields specTemplate \<and> exactFields controlTemplate
   \<and> fieldCount Architecture controlTemplate \<le> 1
   \<and> fst (createSpecFile exCollab exPlatform exVersion rpmWorld) = Inr ()
   \<and> files (snd (createSpecFile exCollab exPlatform exVersion rpmWorld)) specFile
       = Some ''Packager: x <a@b.c> Version: 1_1a''
   \<and> fst (createControlFile exCollab exPlatform debWorld) = Inr ()
   \<and> files (snd (createControlFile exCollab exPlatform debWorld)) controlFile
       = Some ''Maintainer: x <a@b.c> Version: 1 Architecture: amd64 @TOOLS_RELEASE@''"
proof -
  have sep: "exactFields specTemplate" "exactFields controlTemplate"
    by (simp_all add: exactFields_def specTemplate_def controlTemplate_def tokenText_def)
  have cnt: "fieldCount Architecture controlTemplate \<le> 1"
    by (simp add: controlTemplate_def)
  have vals: "\<forall>t. plainValue (rpmValue exCollab exPlatform exVersion t)"
      "plainValue (vString exCollab exVersion)" "plainValue (DebianArch exCollab exPlatform)"
    by (auto simp: rpmValue_def plainValue_def ex_defs split: token.splits)
  have v: "GetCurrent exCollab = Inr exVersion"
    by (simp add: ex_defs)
  have paths: "rpmTemplatePath exCollab = ''../installer/rpm/mongodb-database-tools.spec''"
      "debTemplatePath exCollab = ''../installer/deb/control''"
    by (simp_all add: rpmTemplatePath_def debTemplatePath_def specFile_def ex_defs)
  have tmpl: "files rpmWorld (rpmTemplatePath exCollab) = Some (render specTemplate)"
      "rpmTemplatePath exCollab \<noteq> specFile"
      "files debWorld (debTemplatePath exCollab) = Some (render controlTemplate)"
      "debTemplatePath exCollab \<noteq> controlFile"
    by (simp_all add: paths rpmWorld_def debWorld_def specFile_def controlFile_def)
  have ok1: "fst (createSpecFile exCollab exPlatform exVersion rpmWorld) = Inr ()"
    using tmpl(1,2) by (simp add: createSpecFile_def Let_def io_then_def io_bind_def emit_def
        check_def checked_def getFile_def putFile_def io_return_def ex_defs)
  have ok2: "fst (createControlFile exCollab exPlatform debWorld) = Inr ()"
    using tmpl(3,4) v by (simp add: createControlFile_def Let_def io_then_def io_bind_def emit_def
        check_def checked_def getFile_def putFile_def io_return_def ex_defs)
  from ok1 have run1: "createSpecFile exCollab exPlatform exVersion rpmWorld
      = (Inr (), snd (createSpecFile exCollab exPlatform exVersion rpmWorld))"
    by (metis prod.collapse)
  from ok2 have run2: "createControlFile exCollab exPlatform debWorld
      = (Inr (), snd (createControlFile exCollab exPlatform debWorld))"
    by (metis prod.collapse)
  have f1: "fill (rpmValue exCollab exPlatform exVersion) specTemplate
      = ''Packager: x <a@b.c> Version: 1_1a''"
    by (simp add: specTemplate_def rpmValue_def ex_defs)
  have f2: "fill (debValue exCollab exPlatform exVersion) controlTemplate
      = ''Maintainer: x <a@b.c> Version: 1 Architecture: amd64 @TOOLS_RELEASE@''"
    by (simp add: controlTemplate_def debValue_def ex_defs)
  from metadata_fields_are_filled[OF sep cnt vals, of rpmWorld
        "snd (createSpecFile exCollab exPlatform exVersion rpmWorld)"
        "snd (createControlFile exCollab exPlatform debWorld)"] tmpl(1,2) run1 f1
  have r1: "files (snd (createSpecFile exCollab exPlatform exVersion rpmWorld)) specFile
       = Some ''Packager: x <a@b.c> Version: 1_1a''" by simp
  from metadata_fields_are_filled[OF sep cnt vals, of debWorld
        "snd (createSpecFile exCollab exPlatform exVersion rpmWorld)"
        "snd (createControlFile exCollab exPlatform debWorld)"] tmpl(3,4) v run2 f2
  have r2: "files (snd (createControlFile exCollab exPlatform debWorld)) controlFile
       = Some ''Maintainer: x <a@b.c> Version: 1 Architecture: amd64 @TOOLS_RELEASE@''" by simp
  from sep cnt ok1 ok2 r1 r2 show ?thesis by blast
qed

text \<open>
  C5. In every run the uploads of \<^verbatim>\<open>uploadRelease\<close> are artifact uploads, none of them of
  the feed file, followed by the upload of the feed exactly when the run returns normally and
  the version is stable: the feed is uploaded only for a stable version, and then last.
\<close>

theorem feed_is_uploaded_last:
  "\<exists>ups. feedFilename \<notin> set ups \<and>
     uploadsOf (trace (snd (uploadRelease c v w)))
       = uploadsOf (trace w) @ ups
         @ (if fst (uploadRelease c v w) = Inr () \<and> vIsStable c v then [feedFilename] else [])"
proof -
  obtain r w1 where all: "uploadAll c v (patchNotice c w) = (r, w1)"
    by (cases "uploadAll c v (patchNotice c w)")
  with quiet_uploadAll[of c v] obtain evs where
    evs: "trace w1 = trace (patchNotice c w) @ evs" "list_all notFeedUpload evs"
    by (auto simp: quiet_def dest: spec[of _ "patchNotice c w"])
  then have ups: "uploadsOf (trace w1) = uploadsOf (trace w) @ uploadsOf evs"
      "feedFilename \<notin> set (uploadsOf evs)"
    by (simp_all add: uploadsOf_append uploadsOf_patchNotice notFeedUpload_uploadsOf)
  show ?thesis
  proof (cases r)
    case (Inl e)
    with all have "uploadRelease c v w = (Inl e, w1)"
      by (simp add: uploadRelease_uploadAll io_bind_Inl)
    with ups show ?thesis by (intro exI[of _ "uploadsOf evs"]) simp
  next
    case (Inr dls)
    with all have run: "uploadRelease c v w
        = (if vIsStable c v then uploadFeed c v dls else io_return ()) w1"
      by (simp add: uploadRelease_uploadAll io_bind_Inr)
    show ?thesis
    proof (cases "vIsStable c v")
      case True
      with run uploadFeed_cases[of c v dls w1] ups show ?thesis
        by (intro exI[of _ "uploadsOf evs"]) auto
    next
      case False
      with run ups show ?thesis
        by (intro exI[of _ "uploadsOf evs"]) (simp add: io_return_def)
    qed
  qed
qed

theorem feed_is_uploaded_last_witness:
  "\<exists>ups. feedFilename \<notin> set ups \<and>
     uploadsOf (trace (snd (uploadRelease exCollab exVersion exWorld))) = ups @ [feedFilename]"
proof -
  have "fst (uploadRelease exCollab exVersion exWorld) = Inr ()"
    by (simp add: ex_defs run_defs)
  moreover have "vIsStable exCollab exVersion" "uploadsOf (trace exWorld) = []"
    by (simp_all add: ex_defs)
  ultimately show ?thesis
    using feed_is_uploaded_last[of exCollab exVersion exWorld] by simp
qed

text \<open>
  C6. When a task that is not a patch task and is named "sign" has a variant the platform
  matrix does not know, \<^verbatim>\<open>uploadRelease\<close> ends in the fatal error that names the first
  such variant, whatever the counts are, and uploads nothing.
\<close>

theorem unknown_variant_is_fatal:
  assumes tasks: "GetTasksForRevision c (Commit v) = Inr tasks"
    and t: "t \<in> set tasks" "\<not> IsPatch t" "DisplayName t = ''sign''"
           "GetByVariant c (Variant t) = None"
  shows "(\<exists>u\<in>set tasks. keptTask u \<and> GetByVariant c (Variant u) = None \<and>
            fst (uploadRelease c v w) = Inl (Fatal (unknownVariantMsg (Variant u))))
       \<and> uploadsOf (trace (snd (uploadRelease c v w))) = uploadsOf (trace w)"
proof -
  from t have "\<exists>t\<in>set tasks. keptTask t \<and> GetByVariant c (Variant t) = None"
    by (auto simp: keptTask_def)
  from filter_unknown[OF this, of "[]" "patchNotice c w"] obtain u :: task where
    u: "u \<in> set tasks" "keptTask u" "GetByVariant c (Variant u) = None"
    and "forRange tasks (filterSignTask c) [] (patchNotice c w)
       = (Inl (Fatal (unknownVariantMsg (Variant u))), patchNotice c w)" by blast
  from uploadRelease_unknown[OF tasks this(4)]
  have "uploadRelease c v w = (Inl (Fatal (unknownVariantMsg (Variant u))), patchNotice c w)" .
  with u show ?thesis
    by (auto simp add: uploadsOf_patchNotice)
qed

text \<open>One sign task for a matrix of one platform, which does not know the task's variant.\<close>

theorem unknown_variant_is_fatal_witness:
  "GetTasksForRevision (exCollab\<lparr>GetByVariant := \<lambda>_. None\<rparr>) (Commit exVersion) = Inr [exTask]
   \<and> exTask \<in> set [exTask] \<and> \<not> IsPatch exTask \<and> DisplayName exTask = ''sign''
   \<and> GetByVariant (exCollab\<lparr>GetByVariant := \<lambda>_. None\<rparr>) (Variant exTask) = None
   \<and> length (filter keptTask [exTask]) = Count (exCollab\<lparr>GetByVariant := \<lambda>_. None\<rparr>)
   \<and> fst (uploadRelease (exCollab\<lparr>GetByVariant := \<lambda>_. None\<rparr>) exVersion exWorld)
       = Inl (Fatal (unknownVariantMsg ''v1''))
   \<and> uploadsOf (trace (snd (uploadRelease (exCollab\<lparr>GetByVariant := \<lambda>_. None\<rparr>) exVersion exWorld))) = []"
proof -
  let ?c = "exCollab\<lparr>GetByVariant := \<lambda>_. None\<rparr>"
  have h: "GetTasksForRevision ?c (Commit exVersion) = Inr [exTask]"
      "exTask \<in> set [exTask]" "\<not> IsPatch exTask" "DisplayName exTask = ''sign''"
      "GetByVariant ?c (Variant exTask) = None"
    by (simp_all add: ex_defs)
  have more: "length (filter keptTask [exTask]) = Count ?c" "Variant exTask = ''v1''"
      "uploadsOf (trace exWorld) = []"
    by (simp_all add: ex_defs keptTask_def)
  from unknown_variant_is_fatal[OF h, of exWorld] h more show ?thesis by simp
qed

text \<open>
  C7. For a stable version, an artifact that \<^verbatim>\<open>uploadRelease\<close> gets through leaves a
  latest-stable local file, and the entry of the feed gets the MD5, SHA1 and SHA256 of the
  content of that file: as the archive when the extension of the URL is \<^verbatim>\<open>.tgz\<close> or
  \<^verbatim>\<open>.zip\<close>, as the package otherwise.
\<close>

theorem checksums_of_latest_stable_copy:
  assumes run: "uploadArtifact c v pf a dl w = (Inr dl', w')" and stable: "vIsStable c v"
  shows "\<exists>content.
           files w' (latestStableFile pf (pathExt (URL a))) = Some content \<and>
           dl' = (if pathExt (URL a) = ''.tgz'' \<or> pathExt (URL a) = ''.zip''
                  then dl\<lparr>Archive := checksumRecord c v pf (pathExt (URL a)) content\<rparr>
                  else dl\<lparr>Package := Some (checksumRecord c v pf (pathExt (URL a)) content)\<rparr>)"
proof -
  let ?ext = "pathExt (URL a)"
  from run obtain w1 w2 dl1 w3 where
    "downloadFile c (URL a) (unstableFile pf ?ext) w1 = (Inr (), w2)"
    and st: "stabilize c v pf ?ext dl w2 = (Inr dl1, w3)"
    and up: "io_then (uploadFiles c v pf ?ext) (io_return dl1) w3 = (Inr dl', w')"
    by (auto simp: uploadArtifact_def Let_def io_then_def io_bind_def emit_def
             split: prod.splits sum.splits)
  from uploadFiles_run[of c v pf ?ext w3] up have "dl' = dl1" "files w' = files w3"
    by (auto simp: io_then_def io_bind_def io_return_def)
  with stabilize_stable[OF st stable] show ?thesis by simp
qed

theorem checksums_of_latest_stable_copy_witness:
  "(\<exists>dl'. fst (uploadArtifact exCollab exVersion exPlatform \<lparr>URL = ''h/f.tgz''\<rparr>
               (emptyDownload exPlatform) exWorld) = Inr dl'
          \<and> Md5 (Archive dl') = ''mbody'' \<and> Sha1 (Archive dl') = ''sbody''
          \<and> Sha256 (Archive dl') = ''Sbody'' \<and> Package dl' = None)
   \<and> vIsStable exCollab exVersion"
proof -
  let ?run = "uploadArtifact exCollab exVersion exPlatform \<lparr>URL = ''h/f.tgz''\<rparr>
                (emptyDownload exPlatform) exWorld"
  have "\<exists>dl'. fst ?run = Inr dl'"
    by (simp add: ex_defs run_defs)
  then obtain dl' where ok: "fst ?run = Inr dl'" ..
  then have run: "?run = (Inr dl', snd ?run)"
    by (metis prod.collapse)
  have stable: "vIsStable exCollab exVersion"
    by (simp add: ex_defs)
  have content: "files (snd ?run) (latestStableFile exPlatform (pathExt (URL \<lparr>URL = ''h/f.tgz''\<rparr>)))
      = Some ''body''"
    by (simp add: ex_defs run_defs)
  have ext: "pathExt (URL \<lparr>URL = ''h/f.tgz''\<rparr>) = ''.tgz''"
    by (simp add: pathExt_def)
  from checksums_of_latest_stable_copy[OF run stable] content ext
  have "dl' = (emptyDownload exPlatform)
          \<lparr>Archive := checksumRecord exCollab exVersion exPlatform ''.tgz'' ''body''\<rparr>"
    by simp
  then have "Md5 (Archive dl') = ''mbody'' \<and> Sha1 (Archive dl') = ''sbody''
          \<and> Sha256 (Archive dl') = ''Sbody'' \<and> Package dl' = None"
    by (simp add: checksumRecord_def emptyDownload_def ex_defs)
  with ok stable show ?thesis by blast
qed

text \<open>
  C8. On a Windows platform, when the major version of the current version is not 100 (the
  label written next to the upgrade code), \<^verbatim>\<open>buildMSI\<close> ends in a fatal error without
  having run a command: neither \<^verbatim>\<open>candle.exe\<close> nor \<^verbatim>\<open>light.exe\<close> is started. When
  the build directory was filled and the working directory read, the fatal error is the one
  that says the upgrade code must be updated.
\<close>

theorem stale_upgrade_code_is_fatal:
  assumes pf: "GetFromEnv c = Inr pf" and win: "OS pf = OSWindows"
    and v: "GetCurrent c = Inr v" and major: "Major v \<noteq> 100"
  shows "(\<exists>msg. fst (buildMSI c w) = Inl (Fatal msg))
       \<and> runsOf (trace (snd (buildMSI c w))) = runsOf (trace w)
       \<and> ((\<exists>cur. fst (msiStage c w) = Inr cur) \<and> (\<exists>cwd. osGetwd c = Inr cwd) \<longrightarrow>
            fst (buildMSI c w) = Inl (Fatal upgradeCodeMsg))"
proof -
  let ?rest = "\<lambda>cur. io_bind (checked (osGetwd c) ''getwd'') (\<lambda>cwd.
       io_bind (checked (GetCurrent c) ''get version'') (\<lambda>v.
       io_then
         (if showInt (Major v) \<noteq> lastVersionLabel then
            check (Some ''msiUpgradeCode in release.go must be updated'')
              (''msiUpgradeCode should be up-to-date, last version = '' @ lastVersionLabel)
          else io_return ())
         (msiToolchain c v (cwd @ [CHR 0x5C]) cur)))"
  from pf win have eq: "buildMSI c w = io_bind (msiStage c) ?rest w"
    by (simp add: buildMSI_def io_bind_def checked_def io_return_def)
  from major have label: "showInt (Major v) \<noteq> lastVersionLabel"
    by (simp add: lastVersionLabel_def showInt_100)
  have rest: "?rest cur w1 =
      (case osGetwd c of
         Inl e \<Rightarrow> (Inl (Fatal (checkMsg ''getwd'' e)), w1)
       | Inr cwd \<Rightarrow> (Inl (Fatal upgradeCodeMsg), w1))" for cur w1
    using v label
    by (simp add: io_bind_def io_then_def checked_def check_def logFatal_def io_return_def
          upgradeCodeMsg_def split: sum.splits)
  obtain r w1 where stage: "msiStage c w = (r, w1)" by (cases "msiStage c w")
  from quiet_runs[OF quiet_msiStage, of c w] stage
  have runs: "runsOf (trace w1) = runsOf (trace w)" by simp
  show ?thesis
  proof (cases r)
    case (Inl e)
    with stage quiet_fatal[OF quiet_msiStage, of c w e w1] obtain msg where "e = Fatal msg"
      by auto
    with Inl stage eq runs show ?thesis by (simp add: io_bind_Inl)
  next
    case (Inr cur)
    with stage eq have "buildMSI c w = ?rest cur w1" by (simp add: io_bind_Inr)
    with rest[of cur w1] runs show ?thesis
      by (cases "osGetwd c") auto
  qed
qed

theorem stale_upgrade_code_is_fatal_witness:
  "GetFromEnv msiCollab = Inr \<lparr>Name = ''windows'', Arch = ''x86_64'', OS = OSWindows\<rparr>
   \<and> GetCurrent msiCollab = Inr \<lparr>Major = 101, Minor = 0, Patch = 0, Pre = [], Commit = ''abc''\<rparr>
   \<and> fst (msiStage msiCollab msiWorld) = Inr ''/w''
   \<and> fst (buildMSI msiCollab msiWorld) = Inl (Fatal upgradeCodeMsg)
   \<and> runsOf (trace (snd (buildMSI msiCollab msiWorld))) = []"
proof -
  let ?pf = "\<lparr>Name = ''windows'', Arch = ''x86_64'', OS = OSWindows\<rparr>"
  let ?v = "\<lparr>Major = 101, Minor = 0, Patch = 0, Pre = [], Commit = ''abc''\<rparr>"
  have pf: "GetFromEnv msiCollab = Inr ?pf" and win: "OS ?pf = OSWindows"
    and v: "GetCurrent msiCollab = Inr ?v" and major: "Major ?v \<noteq> 100"
    by (simp_all add: msiCollab_def)
  have stage: "fst (msiStage msiCollab msiWorld) = Inr ''/w''"
    by (simp add: msi_defs msiCollab_def msiWorld_def ex_defs)
  have cwd: "\<exists>cwd. osGetwd msiCollab = Inr cwd"
    by (simp add: msiCollab_def ex_defs)
  have start: "runsOf (trace msiWorld) = []"
    by (simp add: msiWorld_def)
  from stale_upgrade_code_is_fatal[OF pf win v major, of msiWorld] stage cwd start pf v
  show ?thesis by simp
qed

text \<open>
  C9. \<^verbatim>\<open>uploadRelease\<close> never panics: the second loop looks up only variants that the
  first loop has already found in the platform matrix, so \<^verbatim>\<open>panic("unreachable")\<close> is
  not reached, whatever the collaborators answer.
\<close>

theorem unreachable_panic_is_unreachable:
  "fst (uploadRelease c v w) \<noteq> Inl (Panic msg)"
proof -
  have "quiet (\<lambda>_. True) (uploadFeed c v dls)" for dls
    unfolding uploadFeed_def Let_def
    by (intro quiet_basic quiet_emit quiet_awsUploadFile) simp_all
  moreover have "quiet (\<lambda>_. True) (uploadAll c v)"
    using quiet_uploadAll[of c v] by (auto simp: quiet_def list_all_iff)
  ultimately have
    "quiet (\<lambda>_. True)
       (io_bind (uploadAll c v) (\<lambda>dls. if vIsStable c v then uploadFeed c v dls else io_return ()))"
    by (intro quiet_bind quiet_if quiet_return)
  then show ?thesis
    unfolding uploadRelease_uploadAll by (simp add: quiet_def)
qed

theorem unreachable_panic_is_unreachable_witness:
  "fst (uploadRelease exCollab exVersion exWorld) \<noteq> Inl (Panic ''unreachable'')"
  by (rule unreachable_panic_is_unreachable)

text \<open>
  C10. In a patch build \<^verbatim>\<open>uploadRelease\<close> prints that it is not uploading a release and
  then does all that it does in a build that is not a patch: the run is the run of the same
  collaborators with \<^verbatim>\<open>env.EvgIsPatch()\<close> false, started after the printed line.
\<close>

theorem patch_build_still_uploads:
  assumes "EvgIsPatch c"
  shows "uploadRelease c v w =
     uploadRelease (c\<lparr>EvgIsPatch := False\<rparr>) v
       (w\<lparr>trace := trace w @ [Print (''current build is a patch; not uploading a release'' @ [CHR 0x0A])]\<rparr>)"
  using assms
  by (simp add: uploadRelease_uploadAll patch_indep5 patch_indep2 patchNotice_def cong: if_cong)

theorem patch_build_still_uploads_witness:
  "EvgIsPatch (exCollab\<lparr>EvgIsPatch := True\<rparr>)
   \<and> fst (uploadRelease (exCollab\<lparr>EvgIsPatch := True\<rparr>) exVersion exWorld) = Inr ()
   \<and> uploadsOf (trace (snd (uploadRelease (exCollab\<lparr>EvgIsPatch := True\<rparr>) exVersion exWorld)))
       = [''mongodb-database-tools-p-a-unstable.tgz'', ''mongodb-database-tools-p-a-1.tgz'',
          ''mongodb-database-tools-p-a-latest-stable.tgz'', ''release.json'']"
proof -
  have p: "EvgIsPatch (exCollab\<lparr>EvgIsPatch := True\<rparr>)" by simp
  have same: "exCollab\<lparr>EvgIsPatch := True, EvgIsPatch := False\<rparr> = exCollab"
    by (simp add: exCollab_def)
  have "fst (uploadRelease exCollab exVersion
          (exWorld\<lparr>trace := trace exWorld @ [Print (''current build is a patch; not uploading a release'' @ [CHR 0x0A])]\<rparr>)) = Inr ()
      \<and> uploadsOf (trace (snd (uploadRelease exCollab exVersion
          (exWorld\<lparr>trace := trace exWorld @ [Print (''current build is a patch; not uploading a release'' @ [CHR 0x0A])]\<rparr>))))
       = [''mongodb-database-tools-p-a-unstable.tgz'', ''mongodb-database-tools-p-a-1.tgz'',
          ''mongodb-database-tools-p-a-latest-stable.tgz'', ''release.json'']"
    by (simp add: ex_defs run_defs)
  with patch_build_still_uploads[OF p, of exVersion exWorld] same p show ?thesis
    by simp
qed

end
